theory Spec2Isabelle
  imports Main "HOL-Library.Sublist"
begin

section \<open>Python strings\<close>

text \<open>
  Path strings and messages are \<open>string\<close>; a \<open>char\<close> stands for the code point of the
  same number (code points below 256). The text read from a \<open>.txt\<close> file is a list of
  code points (\<open>nat\<close>), since it ranges over all of Unicode.
\<close>

definition py_lower_char :: "char \<Rightarrow> char" where
  \<comment> \<open>\<open>str.lower\<close> on one code point below 256: A-Z and the Latin-1 capitals move by 32.\<close>
  "py_lower_char c =
     (let n = (of_char c :: nat)
      in if (65 \<le> n \<and> n \<le> 90) \<or> (192 \<le> n \<and> n \<le> 222 \<and> n \<noteq> 215)
         then char_of (n + 32) else c)"

definition py_lower :: "string \<Rightarrow> string" where
  "py_lower s = map py_lower_char s"

definition py_isspace :: "nat \<Rightarrow> bool" where
  \<comment> \<open>the code points for which \<open>str.isspace\<close> holds\<close>
  "py_isspace n =
     ((9 \<le> n \<and> n \<le> 13) \<or> (28 \<le> n \<and> n \<le> 32) \<or> n = 133 \<or> n = 160 \<or> n = 5760
      \<or> (8192 \<le> n \<and> n \<le> 8202) \<or> n = 8232 \<or> n = 8233 \<or> n = 8239 \<or> n = 8287
      \<or> n = 12288)"

definition py_strip :: "nat list \<Rightarrow> nat list" where
  \<comment> \<open>\<open>str.strip()\<close>: leading and trailing white space removed\<close>
  "py_strip s = rev (dropWhile py_isspace (rev (dropWhile py_isspace s)))"

definition char_isspace :: "char \<Rightarrow> bool" where
  \<comment> \<open>\<open>str.isspace\<close> on a code point below 256\<close>
  "char_isspace c =
     (let n = (of_char c :: nat)
      in (9 \<le> n \<and> n \<le> 13) \<or> (28 \<le> n \<and> n \<le> 32) \<or> n = 133 \<or> n = 160)"

definition str_strip :: "string \<Rightarrow> string" where
  \<comment> \<open>\<open>str.strip()\<close> on a path string\<close>
  "str_strip s = rev (dropWhile char_isspace (rev (dropWhile char_isspace s)))"

fun py_contains :: "string \<Rightarrow> string \<Rightarrow> bool" where
  \<comment> \<open>\<open>sub in s\<close>\<close>
  "py_contains sub [] = (sub = [])"
| "py_contains sub (c # cs) = (prefix sub (c # cs) \<or> py_contains sub cs)"

definition py_replace :: "nat \<Rightarrow> nat list \<Rightarrow> nat list \<Rightarrow> nat list" where
  \<comment> \<open>\<open>text.replace(old, new)\<close> for a one-character \<open>old\<close>\<close>
  "py_replace old new s = concat (map (\<lambda>c. if c = old then new else [c]) s)"

definition cps :: "string \<Rightarrow> nat list" where
  \<comment> \<open>the code points of a literal\<close>
  "cps s = map of_char s"

definition is_linebreak :: "nat \<Rightarrow> bool" where
  \<comment> \<open>the line boundaries of \<open>str.splitlines\<close>\<close>
  "is_linebreak n =
     ((10 \<le> n \<and> n \<le> 13) \<or> (28 \<le> n \<and> n \<le> 30) \<or> n = 133 \<or> n = 8232 \<or> n = 8233)"

fun splitlines_from :: "nat list \<Rightarrow> nat list \<Rightarrow> nat list list" where
  \<comment> \<open>\<open>str.splitlines()\<close>, the second argument being the line read so far;
      CR LF is one boundary, and no empty line follows the last boundary\<close>
  "splitlines_from [] cur = (if cur = [] then [] else [cur])"
| "splitlines_from (c # cs) cur =
     (if c = 13 then
        (case cs of
           [] \<Rightarrow> [cur]
         | d # r \<Rightarrow> if d = 10 then cur # splitlines_from r [] else cur # splitlines_from cs [])
      else if is_linebreak c then cur # splitlines_from cs []
      else splitlines_from cs (cur @ [c]))"

definition splitlines :: "nat list \<Rightarrow> nat list list" where
  "splitlines s = splitlines_from s []"

subsection \<open>Reading a text file: UTF-8 with an error handler, universal newlines\<close>

datatype errors = Strict | Ignore

definition is_cont :: "nat \<Rightarrow> bool" where
  "is_cont c = (128 \<le> c \<and> c \<le> 191)"

definition valid2 :: "nat \<Rightarrow> nat \<Rightarrow> bool" where
  \<comment> \<open>the second byte after lead byte \<open>b\<close>: a continuation byte that gives neither an
      overlong form, nor a surrogate, nor a code point above 10FFFF\<close>
  "valid2 b c =
     (is_cont c \<and> \<not> (b = 224 \<and> c < 160) \<and> \<not> (b = 237 \<and> 160 \<le> c)
      \<and> \<not> (b = 240 \<and> c < 144) \<and> \<not> (b = 244 \<and> 144 \<le> c))"

definition emit :: "nat \<Rightarrow> nat list option \<Rightarrow> nat list option" where
  "emit c r = map_option ((#) c) r"

fun bad :: "errors \<Rightarrow> nat list option \<Rightarrow> nat list option" where
  \<comment> \<open>an undecodable sequence: \<open>strict\<close> raises UnicodeDecodeError (\<open>None\<close>), \<open>ignore\<close>
      drops the sequence and goes on with the rest\<close>
  "bad Strict r = None"
| "bad Ignore r = r"

fun utf8_decode :: "errors \<Rightarrow> nat list \<Rightarrow> nat list option" where
  "utf8_decode h [] = Some []"
| "utf8_decode h (b # bs) =
     (if b < 128 then emit b (utf8_decode h bs)
      else if b < 194 \<or> 245 \<le> b then bad h (utf8_decode h bs)
      else if b < 224 then
        (case bs of
           [] \<Rightarrow> bad h (Some [])
         | c # r \<Rightarrow>
             if is_cont c then emit ((b - 192) * 64 + (c - 128)) (utf8_decode h r)
             else bad h (utf8_decode h bs))
      else if b < 240 then
        (case bs of
           [] \<Rightarrow> bad h (Some [])
         | c # r \<Rightarrow>
             if \<not> valid2 b c then bad h (utf8_decode h bs)
             else
               (case r of
                  [] \<Rightarrow> bad h (Some [])
                | d # r' \<Rightarrow>
                    if is_cont d
                    then emit ((b - 224) * 4096 + (c - 128) * 64 + (d - 128)) (utf8_decode h r')
                    else bad h (utf8_decode h r)))
      else
        (case bs of
           [] \<Rightarrow> bad h (Some [])
         | c # r \<Rightarrow>
             if \<not> valid2 b c then bad h (utf8_decode h bs)
             else
               (case r of
                  [] \<Rightarrow> bad h (Some [])
                | d # r' \<Rightarrow>
                    if \<not> is_cont d then bad h (utf8_decode h r)
                    else
                      (case r' of
                         [] \<Rightarrow> bad h (Some [])
                       | e # r'' \<Rightarrow>
                           if is_cont e
                           then emit ((b - 240) * 262144 + (c - 128) * 4096 + (d - 128) * 64
                                      + (e - 128)) (utf8_decode h r'')
                           else bad h (utf8_decode h r')))))"

fun universal_newlines :: "nat list \<Rightarrow> nat list" where
  \<comment> \<open>text mode with the default \<open>newline=None\<close>: CR LF and CR are read as LF\<close>
  "universal_newlines [] = []"
| "universal_newlines (c # cs) =
     (if c = 13 then
        (case cs of
           [] \<Rightarrow> [10]
         | d # r \<Rightarrow> if d = 10 then 10 # universal_newlines r else 10 # universal_newlines cs)
      else c # universal_newlines cs)"

section \<open>convert.py: text to PDF\<close>

definition escape_xml :: "nat list \<Rightarrow> nat list" where
  "escape_xml text =
     py_replace 39 (cps ''&#39;'')
       (py_replace 34 (cps ''&quot;'')
          (py_replace 62 (cps ''&gt;'')
             (py_replace 60 (cps ''&lt;'')
                (py_replace 38 (cps ''&amp;'') text))))"

text \<open>
  The flowables of the story. \<open>Spacer\<close> is \<open>Spacer(1, 0.2 * inch)\<close>, and a paragraph
  always has the style \<open>BodyText\<close>: both are fixed, so neither is an argument here.
\<close>

datatype flowable = Paragraph "nat list" | Spacer

definition story_step :: "flowable list \<Rightarrow> nat list \<Rightarrow> flowable list" where
  \<comment> \<open>the body of the loop over the lines\<close>
  "story_step story line =
     (if py_strip line \<noteq> [] then story @ [Paragraph (escape_xml line)] else story @ [Spacer])"

definition make_story :: "nat list \<Rightarrow> flowable list" where
  "make_story content = foldl story_step [] (splitlines content)"

section \<open>Paths: \<open>os.path\<close> and \<open>pathlib\<close> (POSIX flavour)\<close>

definition is_sep :: "char \<Rightarrow> bool" where
  "is_sep c = (c = CHR ''/'')"

definition is_dot :: "char \<Rightarrow> bool" where
  "is_dot c = (c = CHR ''.'')"

definition isabs :: "string \<Rightarrow> bool" where
  "isabs p = (case p of [] \<Rightarrow> False | c # _ \<Rightarrow> is_sep c)"

definition path_split :: "string \<Rightarrow> string \<times> string" where
  \<comment> \<open>\<open>os.path.split\<close>: the head is everything up to the last slash, without its trailing
      slashes unless it consists of slashes only; the tail is what follows the last slash\<close>
  "path_split p =
     (let head = rev (dropWhile (\<lambda>c. \<not> is_sep c) (rev p));
          tail = rev (takeWhile (\<lambda>c. \<not> is_sep c) (rev p))
      in (if head \<noteq> [] \<and> \<not> list_all is_sep head
          then rev (dropWhile is_sep (rev head)) else head, tail))"

definition dirname :: "string \<Rightarrow> string" where
  "dirname p = fst (path_split p)"

definition splitext :: "string \<Rightarrow> string \<times> string" where
  \<comment> \<open>\<open>os.path.splitext\<close>: the extension starts at the last dot of the last component,
      unless only dots precede that dot in the component\<close>
  "splitext p =
     (let base = rev (takeWhile (\<lambda>c. \<not> is_sep c) (rev p));
          upto_dot = rev (dropWhile (\<lambda>c. \<not> is_dot c) (rev base));
          after_dot = rev (takeWhile (\<lambda>c. \<not> is_dot c) (rev base))
      in if upto_dot \<noteq> [] \<and> \<not> list_all is_dot (butlast upto_dot)
         then (take (length p - Suc (length after_dot)) p, CHR ''.'' # after_dot)
         else (p, []))"

definition join :: "string \<Rightarrow> string \<Rightarrow> string" where
  \<comment> \<open>\<open>os.path.join(a, b)\<close>\<close>
  "join a b =
     (if isabs b then b
      else if a = [] \<or> is_sep (last a) then a @ b
      else a @ ''/'' @ b)"

fun py_split :: "string \<Rightarrow> string list" where
  \<comment> \<open>\<open>s.split('/')\<close>\<close>
  "py_split [] = [[]]"
| "py_split (x # xs) =
     (if is_sep x then [] # py_split xs
      else (case py_split xs of [] \<Rightarrow> [[x]] | w # ws \<Rightarrow> (x # w) # ws))"

fun sep_join :: "string list \<Rightarrow> string" where
  \<comment> \<open>\<open>'/'.join(comps)\<close>\<close>
  "sep_join [] = []"
| "sep_join [x] = x"
| "sep_join (x # y # ys) = x @ ''/'' @ sep_join (y # ys)"

fun norm_comps :: "bool \<Rightarrow> string list \<Rightarrow> string list \<Rightarrow> string list" where
  \<comment> \<open>the loop of \<open>normpath\<close> over the components; the last argument is \<open>new_comps\<close>\<close>
  "norm_comps initial [] new_comps = new_comps"
| "norm_comps initial (cmp # comps) new_comps =
     (if cmp = [] \<or> cmp = ''.'' then norm_comps initial comps new_comps
      else if cmp \<noteq> ''..'' \<or> (\<not> initial \<and> new_comps = [])
              \<or> (new_comps \<noteq> [] \<and> last new_comps = ''..'')
      then norm_comps initial comps (new_comps @ [cmp])
      else if new_comps \<noteq> [] then norm_comps initial comps (butlast new_comps)
      else norm_comps initial comps new_comps)"

definition normpath :: "string \<Rightarrow> string" where
  "normpath path =
     (if path = [] then ''.''
      else
        let initial_slashes =
              (if isabs path
               then (if prefix ''//'' path \<and> \<not> prefix ''///'' path then 2 else 1)
               else (0::nat));
            comps = norm_comps (initial_slashes \<noteq> 0) (py_split path) [];
            path' = replicate initial_slashes CHR ''/'' @ sep_join comps
        in if path' = [] then ''.'' else path')"

definition abspath :: "string \<Rightarrow> string \<Rightarrow> string" where
  \<comment> \<open>\<open>os.path.abspath\<close>, the first argument being \<open>os.getcwd()\<close>\<close>
  "abspath cwd path = normpath (if isabs path then path else join cwd path)"

definition path_name :: "string \<Rightarrow> string" where
  \<comment> \<open>\<open>Path(p).name\<close>: the last of the parts, which are the components other than
      the empty one and \<open>.\<close>\<close>
  "path_name p =
     (let parts = filter (\<lambda>x. x \<noteq> [] \<and> x \<noteq> ''.'') (py_split p)
      in if parts = [] then [] else last parts)"

definition has_suffix :: "string \<Rightarrow> bool" where
  \<comment> \<open>\<open>0 < i < len(name) - 1\<close> for \<open>i = name.rfind('.')\<close>\<close>
  "has_suffix name =
     (1 < length (dropWhile (\<lambda>c. \<not> is_dot c) (rev name))
      \<and> takeWhile (\<lambda>c. \<not> is_dot c) (rev name) \<noteq> [])"

definition path_suffix :: "string \<Rightarrow> string" where
  \<comment> \<open>\<open>Path(p).suffix\<close>\<close>
  "path_suffix p =
     (let name = path_name p
      in if has_suffix name
         then CHR ''.'' # rev (takeWhile (\<lambda>c. \<not> is_dot c) (rev name)) else [])"

definition path_stem :: "string \<Rightarrow> string" where
  \<comment> \<open>\<open>Path(p).stem\<close>\<close>
  "path_stem p =
     (let name = path_name p
      in if has_suffix name
         then rev (tl (dropWhile (\<lambda>c. \<not> is_dot c) (rev name))) else name)"

section \<open>The file system, the exceptions and the environment\<close>

text \<open>
  A PDF file is the list of its pages (a page is an opaque number); every other file is its
  bytes. The file system maps a location to what is there. A location is an absolute path
  in the form that \<open>os.path.normpath\<close> gives: names separated by single slashes. There are
  no links, and every operation is permitted.
\<close>

type_synonym page = nat

datatype content = PDF "page list" | Blob "nat list"

datatype node = Dir | File content

type_synonym fs = "string \<Rightarrow> node option"

text \<open>
  The exceptions that the claims tell apart. \<open>OSError\<close> stands for the subclasses of
  OSError other than FileExistsError; \<open>LibError\<close> is an exception of an external library
  (img2pdf, Pillow, ReportLab, docx2pdf, pypdf), known by its message; \<open>ImportError\<close> is
  raised when a module cannot be imported. \<open>MergeError\<close> carries its message and its cause
  (\<open>raise ... from e\<close>).
\<close>

datatype exn =
    ValueError string
  | UnicodeDecodeError
  | FileExistsError string
  | OSError string
  | LibError string
  | ImportError string
  | MergeError string "exn option"

fun exn_str :: "exn \<Rightarrow> string" where
  \<comment> \<open>\<open>str(e)\<close>\<close>
  "exn_str (ValueError m) = m"
| "exn_str UnicodeDecodeError = ''invalid start byte''"
| "exn_str (FileExistsError m) = m"
| "exn_str (OSError m) = m"
| "exn_str (LibError m) = m"
| "exn_str (ImportError m) = m"
| "exn_str (MergeError m c) = m"

definition quoted :: "string \<Rightarrow> string" where
  \<comment> \<open>the string between apostrophes\<close>
  "quoted s = [char_of (39::nat)] @ s @ [char_of (39::nat)]"

definition file_exists_error :: "string \<Rightarrow> exn" where
  "file_exists_error p = FileExistsError (''[Errno 17] File exists: '' @ quoted p)"

definition file_not_found_error :: "string \<Rightarrow> exn" where
  "file_not_found_error p = OSError (''[Errno 2] No such file or directory: '' @ quoted p)"

definition not_a_directory_error :: "string \<Rightarrow> exn" where
  "not_a_directory_error p = OSError (''[Errno 20] Not a directory: '' @ quoted p)"

definition is_a_directory_error :: "string \<Rightarrow> exn" where
  "is_a_directory_error p = OSError (''[Errno 21] Is a directory: '' @ quoted p)"

datatype rotation = IfValid

record img_kwargs =
  auto_orient :: "bool option"
  rotation :: "rotation option"

text \<open>
  What the program takes from its surroundings: the current directory, the directory and
  the name that \<open>tempfile\<close> chooses, which optional modules were imported, the message
  with which the import of the module \<open>convert\<close> fails (it imports img2pdf and ReportLab)
  if it fails, and the external libraries as functions of what they read. A library either
  fails with a message or returns its result.
\<close>

record env =
  cwd :: string
  tmp_root :: string
  tmp_name :: string
  has_backend :: bool
  has_docx2pdf :: bool
  has_rotation_ifvalid :: bool
  import_error :: "string option"
  img2pdf_convert :: "string \<Rightarrow> content \<Rightarrow> img_kwargs \<Rightarrow> string + page list"
  pil_transpose_png :: "string \<Rightarrow> content \<Rightarrow> string + content"
  reportlab_build :: "flowable list \<Rightarrow> string \<Rightarrow> string + page list"
  docx2pdf_convert :: "string \<Rightarrow> content \<Rightarrow> string + page list"
  pdf_bytes :: "page list \<Rightarrow> nat list"

text \<open>
  The operating system finds the location of a path by walking its components, from the
  root or, for a relative path, from the current directory. A component that is empty (a
  doubled slash, a slash at the end), \<open>.\<close> or \<open>..\<close> is looked up in the place reached so
  far, which must then be a directory; \<open>..\<close> leads to the directory above. As there are no
  links, the location that the walk reaches is the one that \<open>os.path.abspath\<close> computes
  from the text. A place reached through a name is not checked by the walk: in a file
  system where everything lies in a directory (\<open>wf_fs\<close> below) it is a directory whenever
  something exists below it, and \<open>mkdir\<close> and \<open>open\<close> check the directory in which they
  create. POSIX leaves open what a path that begins with exactly two slashes names, and
  \<open>normpath\<close> keeps such a beginning; so do the locations here.
\<close>

definition rstrip_sep :: "string \<Rightarrow> string" where
  \<comment> \<open>\<open>s.rstrip('/')\<close>\<close>
  "rstrip_sep s = rev (dropWhile is_sep (rev s))"

definition plain :: "string \<Rightarrow> bool" where
  \<comment> \<open>a component that is a name\<close>
  "plain c = (c \<noteq> [] \<and> c \<noteq> ''.'' \<and> c \<noteq> ''..'')"

definition root_of :: "string \<Rightarrow> string" where
  \<comment> \<open>the slashes with which the location of an absolute path begins\<close>
  "root_of q =
     (if isabs q then (if prefix ''//'' q \<and> \<not> prefix ''///'' q then ''//'' else ''/'')
      else [])"

definition comps_of :: "string \<Rightarrow> string list" where
  \<comment> \<open>the components after the slashes at the beginning\<close>
  "comps_of q = (if dropWhile is_sep q = [] then [] else py_split (dropWhile is_sep q))"

fun walk_dirs :: "string \<Rightarrow> string list \<Rightarrow> string list \<Rightarrow> string list" where
  \<comment> \<open>the places that the walk needs to be directories; the last argument holds the names
      of the place reached so far\<close>
  "walk_dirs root [] names = []"
| "walk_dirs root (c # cs) names =
     (if c = [] \<or> c = ''.'' then (root @ sep_join names) # walk_dirs root cs names
      else if c = ''..'' then (root @ sep_join names) # walk_dirs root cs (butlast names)
      else walk_dirs root cs (names @ [c]))"

definition full_path :: "env \<Rightarrow> string \<Rightarrow> string" where
  \<comment> \<open>a relative path, seen from the current directory\<close>
  "full_path env p = (if isabs p then p else join (cwd env) p)"

definition must_be_dirs :: "env \<Rightarrow> string \<Rightarrow> string list" where
  "must_be_dirs env p = walk_dirs (root_of (full_path env p)) (comps_of (full_path env p)) []"

definition walk_error :: "env \<Rightarrow> fs \<Rightarrow> string \<Rightarrow> exn option" where
  \<comment> \<open>why the walk along \<open>p\<close> fails, if it does: the path is empty, or a place that must be a
      directory is missing or is a file\<close>
  "walk_error env fs p =
     (if p = [] then Some (file_not_found_error p)
      else case find (\<lambda>d. fs d \<noteq> Some Dir) (must_be_dirs env p) of
             None \<Rightarrow> None
           | Some d \<Rightarrow>
               (case fs d of
                  None \<Rightarrow> Some (file_not_found_error p)
                | Some n \<Rightarrow> Some (not_a_directory_error p)))"

definition os_path :: "env \<Rightarrow> string \<Rightarrow> string" where
  \<comment> \<open>the location that the walk along \<open>p\<close> reaches\<close>
  "os_path env p = abspath (cwd env) p"

definition canonical :: "string \<Rightarrow> bool" where
  \<comment> \<open>a path that is written as a location is\<close>
  "canonical p =
     (isabs p \<and> list_all plain (comps_of p) \<and> p = root_of p @ sep_join (comps_of p))"

definition lookup :: "env \<Rightarrow> fs \<Rightarrow> string \<Rightarrow> node option" where
  \<comment> \<open>what the operating system finds at \<open>p\<close>\<close>
  "lookup env fs p =
     (case walk_error env fs p of Some e \<Rightarrow> None | None \<Rightarrow> fs (os_path env p))"

definition isfile :: "env \<Rightarrow> fs \<Rightarrow> string \<Rightarrow> bool" where
  "isfile env fs p = (case lookup env fs p of Some (File c) \<Rightarrow> True | _ \<Rightarrow> False)"

definition isdir :: "env \<Rightarrow> fs \<Rightarrow> string \<Rightarrow> bool" where
  "isdir env fs p = (lookup env fs p = Some Dir)"

definition path_exists :: "env \<Rightarrow> fs \<Rightarrow> string \<Rightarrow> bool" where
  "path_exists env fs p = (lookup env fs p \<noteq> None)"

definition parent_error :: "env \<Rightarrow> fs \<Rightarrow> string \<Rightarrow> exn option" where
  \<comment> \<open>why nothing can be created at \<open>p\<close>: the walk fails, or the directory that would hold
      it is missing or is a file\<close>
  "parent_error env fs p =
     (case walk_error env fs p of
        Some e \<Rightarrow> Some e
      | None \<Rightarrow>
          (case fs (dirname (os_path env p)) of
             None \<Rightarrow> Some (file_not_found_error p)
           | Some (File c) \<Rightarrow> Some (not_a_directory_error p)
           | Some Dir \<Rightarrow> None))"

definition mkdir :: "env \<Rightarrow> fs \<Rightarrow> string \<Rightarrow> exn + fs" where
  \<comment> \<open>\<open>os.mkdir\<close>; the paths it is given here do not end in a slash, the root apart\<close>
  "mkdir env fs p =
     (if path_exists env fs p then Inl (file_exists_error p)
      else case parent_error env fs p of
             Some e \<Rightarrow> Inl e
           | None \<Rightarrow> Inr (fs(os_path env p \<mapsto> Dir)))"

definition makedirs_split :: "string \<Rightarrow> string \<times> string" where
  \<comment> \<open>the first three lines of \<open>os.makedirs\<close>\<close>
  "makedirs_split name =
     (if snd (path_split name) = [] then path_split (fst (path_split name))
      else path_split name)"

definition mkdir_exist_ok :: "env \<Rightarrow> fs \<Rightarrow> string \<Rightarrow> (exn + unit) \<times> fs" where
  \<comment> \<open>the last statement of \<open>os.makedirs\<close> with \<open>exist_ok=True\<close>\<close>
  "mkdir_exist_ok env fs name =
     (case mkdir env fs name of
        Inr fs' \<Rightarrow> (Inr (), fs')
      | Inl e \<Rightarrow> if isdir env fs name then (Inr (), fs) else (Inl e, fs))"

fun is_FileExistsError :: "exn \<Rightarrow> bool" where
  "is_FileExistsError (FileExistsError m) = True"
| "is_FileExistsError e = False"

function makedirs :: "env \<Rightarrow> fs \<Rightarrow> string \<Rightarrow> (exn + unit) \<times> fs" where
  \<comment> \<open>\<open>os.makedirs(name, exist_ok=True)\<close>\<close>
  "makedirs env fs name =
     (if fst (makedirs_split name) \<noteq> [] \<and> snd (makedirs_split name) \<noteq> []
         \<and> \<not> path_exists env fs (fst (makedirs_split name))
      then
        (case makedirs env fs (fst (makedirs_split name)) of
           (Inl e, fs1) \<Rightarrow>
             if is_FileExistsError e
             then (if snd (makedirs_split name) = ''.'' then (Inr (), fs1)
                   else mkdir_exist_ok env fs1 name)
             else (Inl e, fs1)
         | (Inr u, fs1) \<Rightarrow>
             if snd (makedirs_split name) = ''.'' then (Inr (), fs1)
             else mkdir_exist_ok env fs1 name)
      else mkdir_exist_ok env fs name)"
  by pat_completeness auto
termination
proof (relation "measure (\<lambda>(env, fs, name). length name)")
  show "wf (measure (\<lambda>(env, fs, name). length name))"
    by simp
next
  fix env :: env and fs :: fs and name :: string
  assume a: "fst (makedirs_split name) \<noteq> [] \<and> snd (makedirs_split name) \<noteq> []
              \<and> \<not> path_exists env fs (fst (makedirs_split name))"
  have len: "length (fst (path_split p)) + length (snd (path_split p)) \<le> length p" for p
  proof -
    have e: "length (dropWhile (\<lambda>c. \<not> is_sep c) (rev p))
               + length (takeWhile (\<lambda>c. \<not> is_sep c) (rev p)) = length p"
      by (metis add.commute length_append length_rev takeWhile_dropWhile_id)
    have "length (fst (path_split p)) \<le> length (dropWhile (\<lambda>c. \<not> is_sep c) (rev p))"
      by (simp add: path_split_def Let_def length_dropWhile_le)
    moreover have "length (snd (path_split p)) = length (takeWhile (\<lambda>c. \<not> is_sep c) (rev p))"
      by (simp add: path_split_def Let_def)
    ultimately show ?thesis
      using e by linarith
  qed
  have "length (fst (makedirs_split name)) < length name"
  proof (cases "snd (path_split name) = []")
    case True
    then have "makedirs_split name = path_split (fst (path_split name))"
      by (simp add: makedirs_split_def)
    then show ?thesis
      using a len [of "fst (path_split name)"] len [of name] by (cases "snd (makedirs_split name)") auto
  next
    case False
    then have "makedirs_split name = path_split name"
      by (simp add: makedirs_split_def)
    then show ?thesis
      using a len [of name] by (cases "snd (makedirs_split name)") auto
  qed
  then show "((env, fs, fst (makedirs_split name)), (env, fs, name))
               \<in> measure (\<lambda>(env, fs, name). length name)"
    by simp
qed

declare makedirs.simps [simp del]

definition open_wb :: "env \<Rightarrow> fs \<Rightarrow> string \<Rightarrow> exn + fs" where
  \<comment> \<open>\<open>open(p, "wb")\<close>: the file is created, or emptied when it exists\<close>
  "open_wb env fs p =
     (if p = [] then Inl (file_not_found_error p)
      else if isdir env fs p then Inl (is_a_directory_error p)
      else case parent_error env fs p of
             Some e \<Rightarrow> Inl e
           | None \<Rightarrow> Inr (fs(os_path env p \<mapsto> File (Blob []))))"

definition put :: "env \<Rightarrow> fs \<Rightarrow> string \<Rightarrow> content \<Rightarrow> fs" where
  \<comment> \<open>\<open>f.write(data)\<close> on a file just opened for writing, then closed\<close>
  "put env fs p c = fs(os_path env p \<mapsto> File c)"

definition read_file :: "env \<Rightarrow> fs \<Rightarrow> string \<Rightarrow> exn + content" where
  \<comment> \<open>what a library reads when it opens \<open>p\<close>\<close>
  "read_file env fs p =
     (case walk_error env fs p of
        Some e \<Rightarrow> Inl e
      | None \<Rightarrow>
          (case fs (os_path env p) of
             None \<Rightarrow> Inl (file_not_found_error p)
           | Some Dir \<Rightarrow> Inl (is_a_directory_error p)
           | Some (File c) \<Rightarrow> Inr c))"

definition in_tree :: "string \<Rightarrow> string \<Rightarrow> bool" where
  \<comment> \<open>\<open>p\<close> is the directory \<open>d\<close> or lies below it\<close>
  "in_tree d p = (p = d \<or> prefix (d @ ''/'') p)"

definition rmtree :: "fs \<Rightarrow> string \<Rightarrow> fs" where
  "rmtree fs d = (\<lambda>p. if in_tree d p then None else fs p)"

definition TemporaryDirectory :: "env \<Rightarrow> fs \<Rightarrow> (exn + string) \<times> fs" where
  \<comment> \<open>\<open>tempfile.TemporaryDirectory()\<close>: the directory is made when the object is\<close>
  "TemporaryDirectory env fs =
     (case mkdir env fs (tmp_name env) of
        Inl e \<Rightarrow> (Inl e, fs)
      | Inr fs' \<Rightarrow> (Inr (tmp_name env), fs'))"

definition cleanup :: "env \<Rightarrow> fs \<Rightarrow> string \<Rightarrow> fs" where
  \<comment> \<open>\<open>tmpdir_ctx.__exit__(None, None, None)\<close>\<close>
  "cleanup env fs tmpdir = rmtree fs (os_path env tmpdir)"

section \<open>convert.py\<close>

definition IMAGE_EXTS :: "string list" where
  "IMAGE_EXTS = [''.png'', ''.jpg'', ''.jpeg'', ''.bmp'', ''.tif'', ''.tiff'', ''.gif'']"

definition TEXT_EXTS :: "string list" where
  "TEXT_EXTS = [''.txt'']"

definition DOCX_EXTS :: "string list" where
  "DOCX_EXTS = [''.docx'']"

definition is_supported_nonpdf :: "env \<Rightarrow> string \<Rightarrow> bool" where
  "is_supported_nonpdf env path =
     (let ext = py_lower (path_suffix path)
      in ext \<in> set IMAGE_EXTS \<or> ext \<in> set TEXT_EXTS
         \<or> (ext \<in> set DOCX_EXTS \<and> has_docx2pdf env))"

definition bytes_of :: "env \<Rightarrow> content \<Rightarrow> nat list" where
  "bytes_of env c = (case c of Blob bs \<Rightarrow> bs | PDF ps \<Rightarrow> pdf_bytes env ps)"

definition read_text :: "env \<Rightarrow> fs \<Rightarrow> string \<Rightarrow> errors \<Rightarrow> exn + nat list" where
  \<comment> \<open>\<open>open(p, "r", encoding="utf-8", errors=h)\<close> and \<open>fh.read()\<close>\<close>
  "read_text env fs p h =
     (case read_file env fs p of
        Inl e \<Rightarrow> Inl e
      | Inr c \<Rightarrow>
          (case utf8_decode h (bytes_of env c) of
             None \<Rightarrow> Inl UnicodeDecodeError
           | Some t \<Rightarrow> Inr (universal_newlines t)))"

definition save_pdf :: "env \<Rightarrow> fs \<Rightarrow> string \<Rightarrow> page list \<Rightarrow> (exn + unit) \<times> fs" where
  \<comment> \<open>a library writes the finished PDF to \<open>out_pdf\<close>\<close>
  "save_pdf env fs out_pdf pages =
     (case open_wb env fs out_pdf of
        Inl e \<Rightarrow> (Inl e, fs)
      | Inr fs1 \<Rightarrow> (Inr (), put env fs1 out_pdf (PDF pages)))"

definition text_to_pdf :: "env \<Rightarrow> string \<Rightarrow> string \<Rightarrow> fs \<Rightarrow> (exn + unit) \<times> fs" where
  "text_to_pdf env txt_path out_pdf fs =
     (case read_text env fs txt_path Ignore of
        Inl e \<Rightarrow> (Inl e, fs)
      | Inr content \<Rightarrow>
          (case reportlab_build env (make_story content) (path_name txt_path) of
             Inl m \<Rightarrow> (Inl (LibError m), fs)
           | Inr pages \<Rightarrow> save_pdf env fs out_pdf pages))"

definition img2pdf :: "env \<Rightarrow> fs \<Rightarrow> string \<Rightarrow> img_kwargs \<Rightarrow> exn + page list" where
  \<comment> \<open>\<open>img2pdf.convert(path, **kwargs)\<close>\<close>
  "img2pdf env fs path kwargs =
     (case read_file env fs path of
        Inl e \<Rightarrow> Inl e
      | Inr c \<Rightarrow>
          (case img2pdf_convert env path c kwargs of
             Inl m \<Rightarrow> Inl (LibError m)
           | Inr pages \<Rightarrow> Inr pages))"

definition write_img2pdf ::
  "env \<Rightarrow> fs \<Rightarrow> string \<Rightarrow> string \<Rightarrow> img_kwargs \<Rightarrow> (exn + unit) \<times> fs" where
  \<comment> \<open>\<open>with open(out_pdf, "wb") as f: f.write(img2pdf.convert(path, **kwargs))\<close>: the
      file is opened before the image is converted\<close>
  "write_img2pdf env fs out_pdf path kwargs =
     (case open_wb env fs out_pdf of
        Inl e \<Rightarrow> (Inl e, fs)
      | Inr fs1 \<Rightarrow>
          (case img2pdf env fs1 path kwargs of
             Inl e \<Rightarrow> (Inl e, fs1)
           | Inr pages \<Rightarrow> (Inr (), put env fs1 out_pdf (PDF pages))))"

definition unrelated_to_rotation :: "exn \<Rightarrow> bool" where
  \<comment> \<open>\<open>"invalid rotation" not in msg and "rotation" not in msg\<close> for
      \<open>msg = str(e).lower()\<close>\<close>
  "unrelated_to_rotation e =
     (let msg = py_lower (exn_str e)
      in \<not> py_contains ''invalid rotation'' msg \<and> \<not> py_contains ''rotation'' msg)"

definition first_kwargs :: "env \<Rightarrow> img_kwargs" where
  "first_kwargs env =
     \<lparr>auto_orient = Some True,
      rotation = (if has_rotation_ifvalid env then Some IfValid else None)\<rparr>"

definition pillow_fix :: "env \<Rightarrow> fs \<Rightarrow> string \<Rightarrow> string \<Rightarrow> (exn + unit) \<times> fs" where
  \<comment> \<open>\<open>Image.open\<close>, \<open>ImageOps.exif_transpose\<close> and \<open>fixed.save(tmp_fixed, format="PNG")\<close>\<close>
  "pillow_fix env fs img_path tmp_fixed =
     (case read_file env fs img_path of
        Inl e \<Rightarrow> (Inl e, fs)
      | Inr c \<Rightarrow>
          (case pil_transpose_png env img_path c of
             Inl m \<Rightarrow> (Inl (LibError m), fs)
           | Inr png \<Rightarrow>
               (case open_wb env fs tmp_fixed of
                  Inl e \<Rightarrow> (Inl e, fs)
                | Inr fs1 \<Rightarrow> (Inr (), put env fs1 tmp_fixed png))))"

definition last_resort :: "env \<Rightarrow> fs \<Rightarrow> string \<Rightarrow> string \<Rightarrow> (exn + unit) \<times> fs" where
  \<comment> \<open>the handler of the second \<open>try\<close>: the first call again, without keyword arguments\<close>
  "last_resort env fs img_path out_pdf =
     write_img2pdf env fs out_pdf img_path \<lparr>auto_orient = None, rotation = None\<rparr>"

definition fallback :: "env \<Rightarrow> fs \<Rightarrow> string \<Rightarrow> string \<Rightarrow> string \<Rightarrow> (exn + unit) \<times> fs" where
  \<comment> \<open>the second \<open>try\<close> statement of \<open>_image_to_pdf\<close>\<close>
  "fallback env fs img_path out_pdf tmp_dir =
     (let tmp_fixed = join tmp_dir (''fixed_'' @ path_stem img_path @ ''.png'')
      in case pillow_fix env fs img_path tmp_fixed of
           (Inl e, fs1) \<Rightarrow> last_resort env fs1 img_path out_pdf
         | (Inr u, fs1) \<Rightarrow>
             (case write_img2pdf env fs1 out_pdf tmp_fixed
                     \<lparr>auto_orient = Some False, rotation = None\<rparr> of
                (Inl e, fs2) \<Rightarrow> last_resort env fs2 img_path out_pdf
              | (Inr v, fs2) \<Rightarrow> (Inr (), fs2)))"

definition image_to_pdf :: "env \<Rightarrow> string \<Rightarrow> string \<Rightarrow> string \<Rightarrow> fs \<Rightarrow> (exn + unit) \<times> fs" where
  "image_to_pdf env img_path out_pdf tmp_dir fs =
     (case write_img2pdf env fs out_pdf img_path (first_kwargs env) of
        (Inr u, fs1) \<Rightarrow> (Inr (), fs1)
      | (Inl e, fs1) \<Rightarrow>
          if unrelated_to_rotation e then (Inl e, fs1)
          else fallback env fs1 img_path out_pdf tmp_dir)"

definition docx_to_pdf :: "env \<Rightarrow> string \<Rightarrow> string \<Rightarrow> fs \<Rightarrow> (exn + unit) \<times> fs" where
  \<comment> \<open>\<open>docx2pdf.convert(in_path, out)\<close>\<close>
  "docx_to_pdf env in_path out fs =
     (case read_file env fs in_path of
        Inl e \<Rightarrow> (Inl e, fs)
      | Inr c \<Rightarrow>
          (case docx2pdf_convert env in_path c of
             Inl m \<Rightarrow> (Inl (LibError m), fs)
           | Inr pages \<Rightarrow> save_pdf env fs out pages))"

definition returning :: "'a \<Rightarrow> (exn + unit) \<times> fs \<Rightarrow> (exn + 'a) \<times> fs" where
  \<comment> \<open>\<open>return out\<close> after a call that may have raised\<close>
  "returning out r = (case r of (Inl e, fs) \<Rightarrow> (Inl e, fs) | (Inr u, fs) \<Rightarrow> (Inr out, fs))"

definition convert_to_pdf :: "env \<Rightarrow> string \<Rightarrow> string option \<Rightarrow> fs \<Rightarrow> (exn + string) \<times> fs" where
  "convert_to_pdf env input_path tmp_dir_opt fs =
     (let in_path = abspath (cwd env) input_path
      in if \<not> isfile env fs in_path
         then (Inl (ValueError (''Input not found: '' @ in_path)), fs)
         else
           let ext = py_lower (path_suffix in_path);
               tmp_dir = (case tmp_dir_opt of None \<Rightarrow> tmp_root env | Some d \<Rightarrow> d)
           in if ext \<in> set IMAGE_EXTS then
                (let out = join tmp_dir (''img_'' @ path_stem in_path @ ''.pdf'')
                 in returning out (image_to_pdf env in_path out tmp_dir fs))
              else if ext \<in> set TEXT_EXTS then
                (let out = join tmp_dir (''txt_'' @ path_stem in_path @ ''.pdf'')
                 in returning out (text_to_pdf env in_path out fs))
              else if ext \<in> set DOCX_EXTS then
                (if \<not> has_docx2pdf env
                 then (Inl (ValueError (''.docx support requires '' @ quoted ''docx2pdf''
                                          @ '' and Microsoft Word on Windows.'')), fs)
                 else
                   let out = join tmp_dir (''docx_'' @ path_stem in_path @ ''.pdf'')
                   in returning out (docx_to_pdf env in_path out fs))
              else (Inl (ValueError (''Unsupported file type for conversion: '' @ ext)), fs))"

section \<open>pdfmerge.py\<close>

text \<open>
  The merger is the list of the pages appended so far: \<open>append\<close> takes a file path and
  appends all the pages of that file, \<open>write\<close> writes them to the open file.
\<close>

definition merger_append :: "env \<Rightarrow> fs \<Rightarrow> page list \<Rightarrow> string \<Rightarrow> exn + page list" where
  "merger_append env fs merger pdf =
     (case read_file env fs pdf of
        Inl e \<Rightarrow> Inl e
      | Inr (PDF ps) \<Rightarrow> Inr (merger @ ps)
      | Inr (Blob bs) \<Rightarrow> Inl (LibError ''PdfReadError''))"

fun convert_inputs ::
  "env \<Rightarrow> string \<Rightarrow> string list \<Rightarrow> string list \<Rightarrow> fs \<Rightarrow> (exn + string list) \<times> fs" where
  \<comment> \<open>the loop over \<open>files\<close> that fills \<open>pdf_paths\<close>\<close>
  "convert_inputs env tmpdir [] pdf_paths fs = (Inr pdf_paths, fs)"
| "convert_inputs env tmpdir (f # files) pdf_paths fs =
     (if py_lower (path_suffix f) = ''.pdf''
      then convert_inputs env tmpdir files (pdf_paths @ [f]) fs
      else if is_supported_nonpdf env f then
        (case convert_to_pdf env f (Some tmpdir) fs of
           (Inl e, fs1) \<Rightarrow> (Inl e, fs1)
         | (Inr out_pdf, fs1) \<Rightarrow> convert_inputs env tmpdir files (pdf_paths @ [out_pdf]) fs1)
      else (Inl (ValueError (''Unsupported input type: '' @ f)), fs))"

fun append_all :: "env \<Rightarrow> fs \<Rightarrow> string list \<Rightarrow> page list \<Rightarrow> exn + page list" where
  \<comment> \<open>the loop \<open>for pdf in pdf_paths: merger.append(pdf)\<close>\<close>
  "append_all env fs [] merger = Inr merger"
| "append_all env fs (pdf # pdf_paths) merger =
     (case merger_append env fs merger pdf of
        Inl e \<Rightarrow> Inl e
      | Inr merger' \<Rightarrow> append_all env fs pdf_paths merger')"

definition final_out_path :: "string \<Rightarrow> string" where
  \<comment> \<open>\<open>root, ext = os.path.splitext(out_path)\<close>; \<open>if not ext: out_path = root + ".pdf"\<close>\<close>
  "final_out_path out_path =
     (if snd (splitext out_path) = [] then fst (splitext out_path) @ ''.pdf'' else out_path)"

definition merge_body ::
  "env \<Rightarrow> string list \<Rightarrow> string \<Rightarrow> string \<Rightarrow> fs \<Rightarrow> (exn + string) \<times> fs" where
  \<comment> \<open>the body of the \<open>try\<close> statement, after \<open>tmpdir = tmpdir_ctx.__enter__()\<close>\<close>
  "merge_body env files out_path tmpdir fs =
     (case convert_inputs env tmpdir files [] fs of
        (Inl e, fs1) \<Rightarrow> (Inl e, fs1)
      | (Inr pdf_paths, fs1) \<Rightarrow>
          (case append_all env fs1 pdf_paths [] of
             Inl e \<Rightarrow> (Inl e, fs1)
           | Inr merger \<Rightarrow>
               (case open_wb env fs1 (final_out_path out_path) of
                  Inl e \<Rightarrow> (Inl e, fs1)
                | Inr fs2 \<Rightarrow>
                    (Inr (final_out_path out_path),
                     put env fs2 (final_out_path out_path) (PDF merger)))))"

definition reraise :: "exn \<Rightarrow> exn" where
  \<comment> \<open>the two \<open>except\<close> clauses: FileExistsError as it is, every other exception wrapped\<close>
  "reraise e =
     (if is_FileExistsError e then e
      else MergeError (''Failed to merge PDFs: '' @ exn_str e) (Some e))"

definition no_backend_error :: exn where
  "no_backend_error =
     MergeError (''No PDF merger backend available. Install '' @ quoted ''pypdf'' @ '' or ''
                 @ quoted ''PyPDF2'' @ ''.'') None"

definition validate ::
  "env \<Rightarrow> string list \<Rightarrow> string \<Rightarrow> bool \<Rightarrow> fs \<Rightarrow> (exn + string list \<times> string) \<times> fs" where
  \<comment> \<open>\<open>merge_pdfs\<close> up to the last check before the temporary directory: on success
      \<open>files\<close> and \<open>out_path\<close>\<close>
  "validate env input_files output_path overwrite fs =
     (if \<not> has_backend env then (Inl no_backend_error, fs)
      else
        let files = filter (\<lambda>p. str_strip p \<noteq> []) input_files
        in if files = [] then (Inl (ValueError ''No input PDF files provided.''), fs)
           else
             (case find (\<lambda>f. \<not> isfile env fs f) files of
                Some f \<Rightarrow> (Inl (ValueError (''Input file not found: '' @ f)), fs)
              | None \<Rightarrow>
                  let out_path = abspath (cwd env) output_path;
                      out_dir = (if dirname out_path \<noteq> [] then dirname out_path else cwd env)
                  in case makedirs env fs out_dir of
                       (Inl e, fs1) \<Rightarrow> (Inl e, fs1)
                     | (Inr u, fs1) \<Rightarrow>
                         if isdir env fs1 out_path
                         then (Inl (ValueError ''Output path points to a directory, not a file.''),
                               fs1)
                         else if path_exists env fs1 out_path \<and> \<not> overwrite
                         then (Inl (FileExistsError (''Output file already exists: '' @ out_path)),
                               fs1)
                         else (Inr (files, out_path), fs1)))"

definition import_convert :: "env \<Rightarrow> exn + unit" where
  \<comment> \<open>\<open>from . import convert\<close> and, when that fails, \<open>import convert\<close>\<close>
  "import_convert env =
     (case import_error env of None \<Rightarrow> Inr () | Some m \<Rightarrow> Inl (ImportError m))"

definition merge_pdfs ::
  "env \<Rightarrow> string list \<Rightarrow> string \<Rightarrow> bool \<Rightarrow> fs \<Rightarrow> (exn + string) \<times> fs" where
  \<comment> \<open>after the checks: the import of \<open>convert\<close>, the temporary directory, the \<open>try\<close>
      statement with its two handlers and its \<open>finally\<close> clause, and \<open>return out_path\<close>\<close>
  "merge_pdfs env input_files output_path overwrite fs =
     (case validate env input_files output_path overwrite fs of
        (Inl e, fs1) \<Rightarrow> (Inl e, fs1)
      | (Inr (files, out_path), fs1) \<Rightarrow>
          (case import_convert env of
             Inl e \<Rightarrow> (Inl e, fs1)
           | Inr u \<Rightarrow>
               (case TemporaryDirectory env fs1 of
                  (Inl e, fs2) \<Rightarrow> (Inl e, fs2)
                | (Inr tmpdir, fs2) \<Rightarrow>
                    (case merge_body env files out_path tmpdir fs2 of
                       (Inl e, fs3) \<Rightarrow> (Inl (reraise e), cleanup env fs3 tmpdir)
                     | (Inr p, fs3) \<Rightarrow> (Inr p, cleanup env fs3 tmpdir)))))"

section \<open>What the specification says, as definitions\<close>

definition esc_char :: "nat \<Rightarrow> nat list" where
  \<comment> \<open>the five reserved characters, each with its entity\<close>
  "esc_char c =
     (if c = 38 then cps ''&amp;'' else if c = 60 then cps ''&lt;''
      else if c = 62 then cps ''&gt;'' else if c = 34 then cps ''&quot;''
      else if c = 39 then cps ''&#39;'' else [c])"

definition line_flowable :: "nat list \<Rightarrow> flowable" where
  \<comment> \<open>a blank line is vertical spacing, any other line one paragraph of escaped text\<close>
  "line_flowable line =
     (if list_all py_isspace line then Spacer else Paragraph (concat (map esc_char line)))"

definition type_tag :: "string \<Rightarrow> string option" where
  \<comment> \<open>the prefix that stands for the type class of a suffix in lower case\<close>
  "type_tag ext =
     (if ext \<in> set IMAGE_EXTS then Some ''img_''
      else if ext \<in> set TEXT_EXTS then Some ''txt_''
      else if ext \<in> set DOCX_EXTS then Some ''docx_''
      else None)"

definition tmp_output :: "string \<Rightarrow> string \<Rightarrow> string \<Rightarrow> string" where
  \<comment> \<open>the path made of a prefix, a stem and a directory\<close>
  "tmp_output tag stem tmp_dir = join tmp_dir (tag @ stem @ ''.pdf'')"

definition input_tag :: "env \<Rightarrow> string \<Rightarrow> string option" where
  \<comment> \<open>the prefix for an input, by the suffix of its absolute path\<close>
  "input_tag env input_path = type_tag (py_lower (path_suffix (abspath (cwd env) input_path)))"

definition input_stem :: "env \<Rightarrow> string \<Rightarrow> string" where
  \<comment> \<open>the stem of an input, taken from its absolute path\<close>
  "input_stem env input_path = path_stem (abspath (cwd env) input_path)"

section \<open>Predicates on paths and file systems used in the statements\<close>

definition wf_entries :: "(string \<times> node) list \<Rightarrow> bool" where
  \<comment> \<open>the executable form of \<open>wf_fs\<close> for a file system given as a list\<close>
  "wf_entries es =
     list_all (\<lambda>(k, n). isabs k \<and> (dirname k = k \<or> map_of es (dirname k) = Some Dir)) es"

definition raw_head :: "string \<Rightarrow> string" where
  \<comment> \<open>everything up to the last slash, that slash included\<close>
  "raw_head p = rev (dropWhile (\<lambda>c. \<not> is_sep c) (rev p))"

definition raw_tail :: "string \<Rightarrow> string" where
  \<comment> \<open>what follows the last slash\<close>
  "raw_tail p = rev (takeWhile (\<lambda>c. \<not> is_sep c) (rev p))"

definition nodot :: "string \<Rightarrow> bool" where
  \<comment> \<open>no component of the path is \<open>.\<close>\<close>
  "nodot p = (''.'' \<notin> set (py_split p))"

definition tidy :: "string \<Rightarrow> bool" where
  \<comment> \<open>an absolute path without a component \<open>.\<close> that ends in a slash only when it
      consists of slashes\<close>
  "tidy p = (isabs p \<and> nodot p \<and> (raw_tail p = [] \<longrightarrow> list_all is_sep p))"

definition norm_step :: "bool \<Rightarrow> string \<Rightarrow> string list \<Rightarrow> string list" where
  \<comment> \<open>the body of the loop of \<open>norm_comps\<close>, for one component\<close>
  "norm_step initial cmp new_comps =
     (if cmp = [] \<or> cmp = ''.'' then new_comps
      else if cmp \<noteq> ''..'' \<or> (\<not> initial \<and> new_comps = [])
              \<or> (new_comps \<noteq> [] \<and> last new_comps = ''..'')
      then new_comps @ [cmp]
      else if new_comps \<noteq> [] then butlast new_comps
      else new_comps)"

definition wf_fs :: "fs \<Rightarrow> bool" where
  \<comment> \<open>every entry has an absolute path, and lies in a directory that exists unless it is a
      root\<close>
  "wf_fs fs = (\<forall>k. fs k \<noteq> None \<longrightarrow> isabs k \<and> (dirname k = k \<or> fs (dirname k) = Some Dir))"

definition created :: "fs \<Rightarrow> fs \<Rightarrow> string \<Rightarrow> bool" where
  \<comment> \<open>the second file system is the first with new directories, all on the way to \<open>name\<close>\<close>
  "created fs fs1 name =
     (\<forall>k. fs1 k = fs k
          \<or> (fs k = None \<and> fs1 k = Some Dir \<and> dirname k \<noteq> k \<and> in_tree k name))"

definition is_curdir :: "string \<Rightarrow> bool" where
  \<comment> \<open>the component \<open>.\<close>\<close>
  "is_curdir t = (t = ''.'')"

definition tmp_fresh :: "env \<Rightarrow> fs \<Rightarrow> bool" where
  \<comment> \<open>what \<open>mkdtemp\<close> chooses: an absolute path, made by \<open>abspath\<close> and so written as a
      location, without a slash at its end, at which and below which nothing exists\<close>
  "tmp_fresh env fs =
     (isabs (tmp_name env) \<and> canonical (tmp_name env) \<and> \<not> is_sep (last (tmp_name env))
      \<and> (\<forall>p. in_tree (tmp_name env) p \<longrightarrow> fs p = None))"

definition fresh_entries :: "string \<Rightarrow> (string \<times> node) list \<Rightarrow> bool" where
  \<comment> \<open>no entry of the list lies at or below \<open>d\<close>\<close>
  "fresh_entries d es = list_all (\<lambda>(k, n). \<not> in_tree d k) es"

definition related :: "string \<Rightarrow> fs \<Rightarrow> fs \<Rightarrow> bool" where
  \<comment> \<open>two file systems that are equal, or differ only in the content of the file at \<open>K\<close>\<close>
  "related K fs fs' =
     (fs' = fs
      \<or> ((\<forall>k. k \<noteq> K \<longrightarrow> fs' k = fs k)
         \<and> (\<exists>c. fs K = Some (File c)) \<and> (\<exists>c. fs' K = Some (File c))))"

fun os_error :: "exn \<Rightarrow> bool" where
  \<comment> \<open>an exception of the class OSError\<close>
  "os_error (FileExistsError m) = True"
| "os_error (OSError m) = True"
| "os_error e = False"

fun errno_error :: "exn \<Rightarrow> bool" where
  \<comment> \<open>an exception raised by a call of the operating system: its text starts with the
      error number\<close>
  "errno_error (FileExistsError m) = prefix ''[Errno '' m"
| "errno_error (OSError m) = prefix ''[Errno '' m"
| "errno_error e = False"

section \<open>A concrete environment\<close>

definition lib_img2pdf :: "string \<Rightarrow> content \<Rightarrow> img_kwargs \<Rightarrow> string + page list" where
  \<comment> \<open>an image is its bytes; the first byte 0 is an orientation tag that the rotation
      check refuses, the first byte 2 is data that cannot be decoded\<close>
  "lib_img2pdf path c kwargs =
     (case c of
        PDF ps \<Rightarrow> Inl ''cannot read input image''
      | Blob bs \<Rightarrow>
          if bs = [] \<or> hd bs = 2 then Inl ''cannot read input image''
          else if hd bs = 0 \<and> rotation kwargs = Some IfValid then Inl ''Invalid rotation (0)''
          else Inr [sum_list bs])"

definition lib_pillow :: "string \<Rightarrow> content \<Rightarrow> string + content" where
  "lib_pillow path c =
     (case c of
        Blob (b # bs) \<Rightarrow> Inr (Blob (1 # bs))
      | _ \<Rightarrow> Inl ''cannot identify image file'')"

definition lib_reportlab :: "flowable list \<Rightarrow> string \<Rightarrow> string + page list" where
  \<comment> \<open>one page for each flowable: 0 for a spacer, the length of its text for a paragraph\<close>
  "lib_reportlab story title =
     Inr (map (\<lambda>f. case f of Spacer \<Rightarrow> 0 | Paragraph t \<Rightarrow> length t) story)"

definition env0 :: env where
  "env0 =
     \<lparr>cwd = ''/home/u'', tmp_root = ''/tmp'', tmp_name = ''/tmp/tmpab12'',
      has_backend = True, has_docx2pdf = False, has_rotation_ifvalid = True,
      import_error = None,
      img2pdf_convert = lib_img2pdf,
      pil_transpose_png = lib_pillow,
      reportlab_build = lib_reportlab,
      docx2pdf_convert = (\<lambda>path c. Inl ''Word is not installed''),
      pdf_bytes = (\<lambda>ps. ps)\<rparr>"

definition fs0_entries :: "(string \<times> node) list" where
  "fs0_entries =
     [(''/'', Dir), (''/home'', Dir), (''/home/u'', Dir), (''/tmp'', Dir),
      (''/home/u/a.pdf'', File (PDF [1, 2])),
      (''/home/u/b.pdf'', File (PDF [3, 4, 5])),
      (''/home/u/n.txt'', File (Blob [72, 255, 10, 10, 60])),
      (''/home/u/i.png'', File (Blob [0, 7])),
      (''/home/u/x.png'', File (Blob [4, 7])),
      (''/home/x.jpg'', File (Blob [5, 7])),
      (''/home/u/notes.xyz'', File (Blob [1])),
      (''/home/u/old.pdf'', File (PDF [9])),
      (''/home/u/bad.png'', File (Blob [2])),
      (''/home/u/dir.pdf'', Dir)]"

definition fs0 :: fs where
  "fs0 = map_of fs0_entries"

definition pages0 :: "string \<Rightarrow> page list" where
  \<comment> \<open>the pages of the PDF file of \<open>fs0\<close> that a name leads to from \<open>/home/u\<close>\<close>
  "pages0 f = (case lookup env0 fs0 f of Some (File (PDF ps)) \<Rightarrow> ps | _ \<Rightarrow> [])"

section \<open>Text files\<close>

lemma emit_Some: "(\<exists>t. emit c r = Some t) = (\<exists>t. r = Some t)"
  by (cases r) (simp_all add: emit_def)

lemma utf8_decode_ignore_total: "\<exists>t. utf8_decode Ignore bs = Some t"
proof (induction bs rule: length_induct)
  case (1 bs)
  have IH: "\<exists>t. utf8_decode Ignore ys = Some t" if "length ys < length bs" for ys
    using 1 that by blast
  show ?case
  proof (cases bs)
    case Nil
    then show ?thesis by simp
  next
    case (Cons b r)
    show ?thesis
      unfolding Cons
      apply (subst utf8_decode.simps(2))
      using IH unfolding Cons
      by (auto simp add: emit_Some simp del: utf8_decode.simps(2) split: list.splits)
  qed
qed

lemma utf8_decode_strict_ignore:
  "utf8_decode Strict bs = Some t \<Longrightarrow> utf8_decode Ignore bs = Some t"
proof (induction bs arbitrary: t rule: length_induct)
  case (1 bs)
  have IH: "utf8_decode Ignore ys = Some u"
    if "length ys < length bs" "utf8_decode Strict ys = Some u" for ys u
    using 1 that by blast
  show ?case
  proof (cases bs)
    case Nil
    then show ?thesis using 1 by simp
  next
    case (Cons b r)
    have S: "utf8_decode Strict (b # r) = Some t" using 1(2) Cons by simp
    show ?thesis
      unfolding Cons
      apply (subst utf8_decode.simps(2))
      using S IH unfolding Cons
      apply (subst (asm) utf8_decode.simps(2))
      by (auto simp add: emit_def simp del: utf8_decode.simps(2) split: list.splits if_splits)
  qed
qed

lemma escape_xml_chars: "escape_xml t = concat (map esc_char t)"
proof (induction t)
  case Nil
  then show ?case by (simp add: escape_xml_def py_replace_def)
next
  case (Cons c t)
  have "escape_xml (c # t) = escape_xml [c] @ escape_xml t"
    by (simp add: escape_xml_def py_replace_def)
  moreover have "escape_xml [c] = esc_char c"
    by (simp add: escape_xml_def py_replace_def esc_char_def cps_def)
  ultimately show ?case using Cons by simp
qed

lemma py_strip_blank: "(py_strip line = []) = list_all py_isspace line"
proof (cases "dropWhile py_isspace line")
  case Nil
  have "py_strip line = []"
    unfolding py_strip_def Nil by simp
  moreover have "list_all py_isspace line"
    using Nil by (simp add: list_all_iff)
  ultimately show ?thesis by simp
next
  case (Cons x xs)
  then have x: "\<not> py_isspace x"
    by (metis hd_dropWhile list.sel(1) list.distinct(1))
  have "x \<in> set line"
    by (metis Cons list.set_intros(1) set_dropWhileD)
  then have "\<not> list_all py_isspace line"
    using x by (auto simp: list_all_iff)
  moreover have "py_strip line \<noteq> []"
    using Cons x by (auto simp: py_strip_def)
  ultimately show ?thesis by simp
qed

lemma story_step_flowable: "story_step story line = story @ [line_flowable line]"
  by (simp add: story_step_def line_flowable_def py_strip_blank escape_xml_chars)

lemma foldl_story_step: "foldl story_step acc ls = acc @ map line_flowable ls"
  by (induction ls arbitrary: acc) (simp_all add: story_step_flowable)

lemma make_story_map: "make_story content = map line_flowable (splitlines content)"
  by (simp add: make_story_def foldl_story_step)

text \<open>
  C8. For a \<open>.txt\<close> input that can be opened, reading never raises on undecodable bytes:
  with \<open>errors="ignore"\<close> the decoder always returns a text, the one the strict decoder
  returns whenever the bytes are valid UTF-8. The text is split into lines, and the story
  handed to the layout engine has one flowable for each line, in order: vertical spacing
  for a blank line, and for any other line one paragraph whose text is the line with each
  of \<open>&\<close>, \<open><\<close>, \<open>>\<close>, the double quote and the apostrophe replaced by its entity.
\<close>

theorem text_to_pdf_paragraphs:
  assumes "read_file env fs txt_path = Inr c"
  shows "\<exists>t. utf8_decode Ignore (bytes_of env c) = Some t
           \<and> (\<forall>t'. utf8_decode Strict (bytes_of env c) = Some t' \<longrightarrow> t' = t)
           \<and> read_text env fs txt_path Ignore = Inr (universal_newlines t)
           \<and> text_to_pdf env txt_path out_pdf fs =
               (case reportlab_build env
                       (map line_flowable (splitlines (universal_newlines t)))
                       (path_name txt_path) of
                  Inl m \<Rightarrow> (Inl (LibError m), fs)
                | Inr pages \<Rightarrow> save_pdf env fs out_pdf pages)"
proof -
  obtain t where t: "utf8_decode Ignore (bytes_of env c) = Some t"
    using utf8_decode_ignore_total by blast
  have r: "read_text env fs txt_path Ignore = Inr (universal_newlines t)"
    using assms t by (simp add: read_text_def)
  have s: "\<forall>t'. utf8_decode Strict (bytes_of env c) = Some t' \<longrightarrow> t' = t"
    using t utf8_decode_strict_ignore by fastforce
  show ?thesis
    using t r s by (simp add: text_to_pdf_def make_story_map)
qed

theorem text_to_pdf_paragraphs_witness:
  "snd (text_to_pdf env0 ''/home/u/n.txt'' ''/tmp/n.pdf'' fs0) ''/tmp/n.pdf''
     = Some (File (PDF [1, 0, 4]))"
proof -
  have h: "read_file env0 fs0 ''/home/u/n.txt'' = Inr (Blob [72, 255, 10, 10, 60])"
    by code_simp
  obtain t where t: "utf8_decode Ignore (bytes_of env0 (Blob [72, 255, 10, 10, 60])) = Some t"
    and e: "text_to_pdf env0 ''/home/u/n.txt'' ''/tmp/n.pdf'' fs0 =
              (case reportlab_build env0
                      (map line_flowable (splitlines (universal_newlines t)))
                      (path_name ''/home/u/n.txt'') of
                 Inl m \<Rightarrow> (Inl (LibError m), fs0)
               | Inr pages \<Rightarrow> save_pdf env0 fs0 ''/tmp/n.pdf'' pages)"
    using text_to_pdf_paragraphs [OF h, of "''/tmp/n.pdf''"] by blast
  have "utf8_decode Ignore (bytes_of env0 (Blob [72, 255, 10, 10, 60])) = Some [72, 10, 10, 60]"
    by code_simp
  then have t': "t = [72, 10, 10, 60]"
    using t by simp
  show ?thesis
    unfolding e t' by code_simp
qed

section \<open>Images\<close>

lemma py_contains_sublist: "py_contains sub s = sublist sub s"
  by (induction s) (auto simp: sublist_Cons_right)

lemma unrelated_to_rotation_iff:
  "unrelated_to_rotation e = (\<not> py_contains ''rotation'' (py_lower (exn_str e)))"
proof -
  have "sublist ''rotation'' (''invalid '' @ ''rotation'' @ [])"
    by (rule sublist_appendI)
  then have s: "sublist ''rotation'' ''invalid rotation''"
    by simp
  have "py_contains ''rotation'' m" if "py_contains ''invalid rotation'' m" for m
    using that s unfolding py_contains_sublist by (rule_tac sublist_order.order_trans)
  then show ?thesis
    unfolding unrelated_to_rotation_def Let_def by blast
qed

lemma image_to_pdf_cases:
  "image_to_pdf env img_path out_pdf tmp_dir fs =
     (case fst (write_img2pdf env fs out_pdf img_path (first_kwargs env)) of
        Inr u \<Rightarrow> (Inr (), snd (write_img2pdf env fs out_pdf img_path (first_kwargs env)))
      | Inl e \<Rightarrow>
          if \<not> py_contains ''rotation'' (py_lower (exn_str e))
          then (Inl e, snd (write_img2pdf env fs out_pdf img_path (first_kwargs env)))
          else fallback env (snd (write_img2pdf env fs out_pdf img_path (first_kwargs env)))
                 img_path out_pdf tmp_dir)"
  unfolding image_to_pdf_def unrelated_to_rotation_iff
  by (cases "write_img2pdf env fs out_pdf img_path (first_kwargs env)") (simp split: sum.splits)

text \<open>
  C7. The first attempt is \<open>img2pdf.convert\<close> with the orientation options, written to
  the output file. When it succeeds, nothing else runs. When it fails with a message that
  does not contain \<open>rotation\<close> (in lower case), the same exception propagates at once.
  Only when the message contains \<open>rotation\<close> is the fallback entered: Pillow decodes the
  image again, transposes it and saves it as a PNG file in the temporary directory, and
  \<open>img2pdf.convert\<close> is retried on that file with \<open>auto_orient=False\<close>; if any of this
  fails, the original call is retried with no orientation option at all, and what that
  call does is the result.
\<close>

theorem image_to_pdf_fallback_chain:
  "(\<forall>u. fst (write_img2pdf env fs out_pdf img_path (first_kwargs env)) = Inr u \<longrightarrow>
      image_to_pdf env img_path out_pdf tmp_dir fs
        = (Inr (), snd (write_img2pdf env fs out_pdf img_path (first_kwargs env))))
   \<and> (\<forall>e. fst (write_img2pdf env fs out_pdf img_path (first_kwargs env)) = Inl e
          \<and> \<not> py_contains ''rotation'' (py_lower (exn_str e)) \<longrightarrow>
      image_to_pdf env img_path out_pdf tmp_dir fs
        = (Inl e, snd (write_img2pdf env fs out_pdf img_path (first_kwargs env))))
   \<and> (\<forall>e. fst (write_img2pdf env fs out_pdf img_path (first_kwargs env)) = Inl e
          \<and> py_contains ''rotation'' (py_lower (exn_str e)) \<longrightarrow>
      image_to_pdf env img_path out_pdf tmp_dir fs
        = (let fs1 = snd (write_img2pdf env fs out_pdf img_path (first_kwargs env));
               tmp_fixed = join tmp_dir (''fixed_'' @ path_stem img_path @ ''.png'');
               final = (\<lambda>fs'. write_img2pdf env fs' out_pdf img_path
                                 \<lparr>auto_orient = None, rotation = None\<rparr>)
           in case pillow_fix env fs1 img_path tmp_fixed of
                (Inl e1, fs2) \<Rightarrow> final fs2
              | (Inr u, fs2) \<Rightarrow>
                  (case write_img2pdf env fs2 out_pdf tmp_fixed
                          \<lparr>auto_orient = Some False, rotation = None\<rparr> of
                     (Inl e2, fs3) \<Rightarrow> final fs3
                   | (Inr v, fs3) \<Rightarrow> (Inr (), fs3))))"
proof (intro conjI allI impI)
  fix u
  assume "fst (write_img2pdf env fs out_pdf img_path (first_kwargs env)) = Inr u"
  then show "image_to_pdf env img_path out_pdf tmp_dir fs
        = (Inr (), snd (write_img2pdf env fs out_pdf img_path (first_kwargs env)))"
    by (simp add: image_to_pdf_cases)
next
  fix e
  assume "fst (write_img2pdf env fs out_pdf img_path (first_kwargs env)) = Inl e
          \<and> \<not> py_contains ''rotation'' (py_lower (exn_str e))"
  then show "image_to_pdf env img_path out_pdf tmp_dir fs
        = (Inl e, snd (write_img2pdf env fs out_pdf img_path (first_kwargs env)))"
    by (simp add: image_to_pdf_cases)
next
  fix e
  assume "fst (write_img2pdf env fs out_pdf img_path (first_kwargs env)) = Inl e
          \<and> py_contains ''rotation'' (py_lower (exn_str e))"
  then have "image_to_pdf env img_path out_pdf tmp_dir fs
      = fallback env (snd (write_img2pdf env fs out_pdf img_path (first_kwargs env)))
          img_path out_pdf tmp_dir"
    by (simp add: image_to_pdf_cases)
  then show "image_to_pdf env img_path out_pdf tmp_dir fs
        = (let fs1 = snd (write_img2pdf env fs out_pdf img_path (first_kwargs env));
               tmp_fixed = join tmp_dir (''fixed_'' @ path_stem img_path @ ''.png'');
               final = (\<lambda>fs'. write_img2pdf env fs' out_pdf img_path
                                 \<lparr>auto_orient = None, rotation = None\<rparr>)
           in case pillow_fix env fs1 img_path tmp_fixed of
                (Inl e1, fs2) \<Rightarrow> final fs2
              | (Inr u, fs2) \<Rightarrow>
                  (case write_img2pdf env fs2 out_pdf tmp_fixed
                          \<lparr>auto_orient = Some False, rotation = None\<rparr> of
                     (Inl e2, fs3) \<Rightarrow> final fs3
                   | (Inr v, fs3) \<Rightarrow> (Inr (), fs3)))"
    unfolding fallback_def last_resort_def Let_def
    by (simp split: prod.splits sum.splits)
qed

theorem image_to_pdf_fallback_chain_witness:
  "fst (image_to_pdf env0 ''/home/u/i.png'' ''/tmp/img_i.pdf'' ''/tmp'' fs0) = Inr ()
   \<and> snd (image_to_pdf env0 ''/home/u/i.png'' ''/tmp/img_i.pdf'' ''/tmp'' fs0) ''/tmp/img_i.pdf''
       = Some (File (PDF [8]))
   \<and> snd (image_to_pdf env0 ''/home/u/i.png'' ''/tmp/img_i.pdf'' ''/tmp'' fs0) ''/tmp/fixed_i.png''
       = Some (File (Blob [1, 7]))"
proof -
  have p: "fst (write_img2pdf env0 fs0 ''/tmp/img_i.pdf'' ''/home/u/i.png'' (first_kwargs env0))
             = Inl (LibError ''Invalid rotation (0)'')
           \<and> py_contains ''rotation'' (py_lower (exn_str (LibError ''Invalid rotation (0)'')))"
    by code_simp
  have e: "image_to_pdf env0 ''/home/u/i.png'' ''/tmp/img_i.pdf'' ''/tmp'' fs0
        = (let fs1 = snd (write_img2pdf env0 fs0 ''/tmp/img_i.pdf'' ''/home/u/i.png'' (first_kwargs env0));
               tmp_fixed = join ''/tmp'' (''fixed_'' @ path_stem ''/home/u/i.png'' @ ''.png'');
               final = (\<lambda>fs'. write_img2pdf env0 fs' ''/tmp/img_i.pdf'' ''/home/u/i.png''
                                 \<lparr>auto_orient = None, rotation = None\<rparr>)
           in case pillow_fix env0 fs1 ''/home/u/i.png'' tmp_fixed of
                (Inl e1, fs2) \<Rightarrow> final fs2
              | (Inr u, fs2) \<Rightarrow>
                  (case write_img2pdf env0 fs2 ''/tmp/img_i.pdf'' tmp_fixed
                          \<lparr>auto_orient = Some False, rotation = None\<rparr> of
                     (Inl e2, fs3) \<Rightarrow> final fs3
                   | (Inr v, fs3) \<Rightarrow> (Inr (), fs3)))"
    using image_to_pdf_fallback_chain [of env0 fs0 "''/tmp/img_i.pdf''" "''/home/u/i.png''" "''/tmp''"] p
    by blast
  show ?thesis
    unfolding e by code_simp
qed

section \<open>The exceptions of \<open>merge_pdfs\<close>\<close>

lemma walk_error_cases:
  "walk_error env fs p = Some e \<Longrightarrow> e = file_not_found_error p \<or> e = not_a_directory_error p"
  by (auto simp: walk_error_def split: if_splits option.splits)

lemma walk_error_not_FEE: "walk_error env fs p = Some e \<Longrightarrow> \<not> is_FileExistsError e"
  by (auto simp: file_not_found_error_def not_a_directory_error_def dest!: walk_error_cases)

lemma parent_error_not_FEE: "parent_error env fs p = Some e \<Longrightarrow> \<not> is_FileExistsError e"
  by (auto simp: parent_error_def file_not_found_error_def not_a_directory_error_def
           dest: walk_error_not_FEE split: option.splits node.splits)

lemma open_wb_not_FEE: "open_wb env fs p = Inl e \<Longrightarrow> \<not> is_FileExistsError e"
  by (auto simp: open_wb_def file_not_found_error_def is_a_directory_error_def
           dest: parent_error_not_FEE split: if_splits option.splits)

lemma read_file_not_FEE: "read_file env fs p = Inl e \<Longrightarrow> \<not> is_FileExistsError e"
  by (auto simp: read_file_def file_not_found_error_def is_a_directory_error_def
           dest: walk_error_not_FEE split: option.splits node.splits)

lemma img2pdf_not_FEE: "img2pdf env fs p kw = Inl e \<Longrightarrow> \<not> is_FileExistsError e"
  by (auto simp: img2pdf_def dest: read_file_not_FEE split: sum.splits)

lemma write_img2pdf_not_FEE:
  "write_img2pdf env fs out p kw = (Inl e, fs') \<Longrightarrow> \<not> is_FileExistsError e"
  by (auto simp: write_img2pdf_def dest: open_wb_not_FEE img2pdf_not_FEE split: sum.splits)

lemma save_pdf_not_FEE: "save_pdf env fs out ps = (Inl e, fs') \<Longrightarrow> \<not> is_FileExistsError e"
  by (auto simp: save_pdf_def dest: open_wb_not_FEE split: sum.splits)

lemma fallback_not_FEE:
  "fallback env fs img out tmp = (Inl e, fs') \<Longrightarrow> \<not> is_FileExistsError e"
  by (auto simp: fallback_def last_resort_def Let_def dest: write_img2pdf_not_FEE
           split: sum.splits prod.splits)

lemma image_to_pdf_not_FEE:
  "image_to_pdf env img out tmp fs = (Inl e, fs') \<Longrightarrow> \<not> is_FileExistsError e"
  by (auto simp: image_to_pdf_def dest: write_img2pdf_not_FEE fallback_not_FEE
           split: sum.splits prod.splits if_splits)

lemma read_text_not_FEE: "read_text env fs p h = Inl e \<Longrightarrow> \<not> is_FileExistsError e"
  by (auto simp: read_text_def dest: read_file_not_FEE split: sum.splits option.splits)

lemma text_to_pdf_not_FEE:
  "text_to_pdf env p out fs = (Inl e, fs') \<Longrightarrow> \<not> is_FileExistsError e"
  by (auto simp: text_to_pdf_def dest: read_text_not_FEE save_pdf_not_FEE split: sum.splits)

lemma docx_to_pdf_not_FEE:
  "docx_to_pdf env p out fs = (Inl e, fs') \<Longrightarrow> \<not> is_FileExistsError e"
  by (auto simp: docx_to_pdf_def dest: read_file_not_FEE save_pdf_not_FEE split: sum.splits)

lemma returning_Inl: "returning out r = (Inl e, fs') \<Longrightarrow> r = (Inl e, fs')"
  by (auto simp: returning_def split: prod.splits sum.splits)

lemma convert_to_pdf_not_FEE:
  "convert_to_pdf env p tmp fs = (Inl e, fs') \<Longrightarrow> \<not> is_FileExistsError e"
  unfolding convert_to_pdf_def Let_def
  by (auto dest!: returning_Inl dest: image_to_pdf_not_FEE text_to_pdf_not_FEE docx_to_pdf_not_FEE
           split: if_splits)

lemma convert_inputs_not_FEE:
  "convert_inputs env tmp files acc fs = (Inl e, fs') \<Longrightarrow> \<not> is_FileExistsError e"
proof (induction files arbitrary: acc fs)
  case Nil
  then show ?case by simp
next
  case (Cons f files)
  then show ?case
    by (auto dest: convert_to_pdf_not_FEE split: if_splits prod.splits sum.splits)
qed

lemma merger_append_not_FEE:
  "merger_append env fs m p = Inl e \<Longrightarrow> \<not> is_FileExistsError e"
  by (auto simp: merger_append_def dest: read_file_not_FEE split: sum.splits content.splits)

lemma append_all_not_FEE:
  "append_all env fs ps m = Inl e \<Longrightarrow> \<not> is_FileExistsError e"
  by (induction ps arbitrary: m) (auto dest: merger_append_not_FEE split: sum.splits)

lemma merge_body_not_FEE:
  "merge_body env files out tmp fs = (Inl e, fs') \<Longrightarrow> \<not> is_FileExistsError e"
  by (auto simp: merge_body_def
           dest: convert_inputs_not_FEE append_all_not_FEE open_wb_not_FEE
           split: prod.splits sum.splits)

lemma reraise_wraps:
  "\<not> is_FileExistsError e \<Longrightarrow>
   reraise e = MergeError (''Failed to merge PDFs: '' @ exn_str e) (Some e)"
  by (simp add: reraise_def)

lemma mkdir_os_error: "mkdir env fs p = Inl e \<Longrightarrow> os_error e"
  by (auto simp: mkdir_def file_exists_error_def parent_error_def file_not_found_error_def
           not_a_directory_error_def dest!: walk_error_cases
           split: if_splits option.splits node.splits)

lemma mkdir_exist_ok_os_error: "mkdir_exist_ok env fs p = (Inl e, fs1) \<Longrightarrow> os_error e"
  by (auto simp: mkdir_exist_ok_def dest: mkdir_os_error split: sum.splits if_splits)

lemma makedirs_os_error: "makedirs env fs name = (Inl e, fs1) \<Longrightarrow> os_error e"
proof (induction env fs name arbitrary: e fs1 rule: makedirs.induct)
  case (1 env fs name)
  show ?case
    using "1.prems" "1.IH"
    by (subst (asm) makedirs.simps)
       (auto dest: mkdir_exist_ok_os_error split: if_splits prod.splits sum.splits)
qed

lemma validate_not_MergeError_Some:
  "validate env input_files output_path overwrite fs = (Inl (MergeError m c), fs1) \<Longrightarrow> c = None"
  unfolding validate_def Let_def no_backend_error_def
  by (auto dest: makedirs_os_error split: if_splits option.splits prod.splits sum.splits)

lemma fst_eq_pair: "fst x = a \<Longrightarrow> x = (a, snd x)"
  by (cases x) simp

text \<open>
  C5. Once the checks have passed, the module \<open>convert\<close> is imported and the temporary
  directory exists, every exception
  raised by the body of the \<open>try\<close> statement (conversion, concatenation, writing) reaches
  the caller as a MergeError whose message is \<open>Failed to merge PDFs:\<close> followed by the
  text of that exception, and whose cause is that exception. The FileExistsError that the
  checks raise reaches the caller as it is, and no MergeError that \<open>merge_pdfs\<close> raises
  has a FileExistsError as its cause.
\<close>

theorem merge_pdfs_error_wrapping:
  "(\<forall>files out_path fs1 tmpdir fs2 e fs3.
      validate env input_files output_path overwrite fs = (Inr (files, out_path), fs1)
      \<and> import_convert env = Inr ()
      \<and> TemporaryDirectory env fs1 = (Inr tmpdir, fs2)
      \<and> merge_body env files out_path tmpdir fs2 = (Inl e, fs3)
      \<longrightarrow> fst (merge_pdfs env input_files output_path overwrite fs)
            = Inl (MergeError (''Failed to merge PDFs: '' @ exn_str e) (Some e)))
   \<and> (\<forall>m fs1.
        validate env input_files output_path overwrite fs = (Inl (FileExistsError m), fs1)
        \<longrightarrow> merge_pdfs env input_files output_path overwrite fs = (Inl (FileExistsError m), fs1))
   \<and> (\<forall>m c m'.
        fst (merge_pdfs env input_files output_path overwrite fs) = Inl (MergeError m c)
        \<longrightarrow> c \<noteq> Some (FileExistsError m'))"
proof (intro conjI allI impI)
  fix files out_path fs1 tmpdir fs2 e fs3
  assume a: "validate env input_files output_path overwrite fs = (Inr (files, out_path), fs1)
      \<and> import_convert env = Inr ()
      \<and> TemporaryDirectory env fs1 = (Inr tmpdir, fs2)
      \<and> merge_body env files out_path tmpdir fs2 = (Inl e, fs3)"
  then have "\<not> is_FileExistsError e"
    using merge_body_not_FEE by blast
  then show "fst (merge_pdfs env input_files output_path overwrite fs)
            = Inl (MergeError (''Failed to merge PDFs: '' @ exn_str e) (Some e))"
    using a by (simp add: merge_pdfs_def reraise_wraps)
next
  fix m fs1
  assume "validate env input_files output_path overwrite fs = (Inl (FileExistsError m), fs1)"
  then show "merge_pdfs env input_files output_path overwrite fs = (Inl (FileExistsError m), fs1)"
    by (simp add: merge_pdfs_def)
next
  fix m c m'
  assume a: "fst (merge_pdfs env input_files output_path overwrite fs) = Inl (MergeError m c)"
  show "c \<noteq> Some (FileExistsError m')"
  proof
    assume c: "c = Some (FileExistsError m')"
    obtain r fs1 where v: "validate env input_files output_path overwrite fs = (r, fs1)"
      by (cases "validate env input_files output_path overwrite fs")
    show False
    proof (cases r)
      case (Inl e)
      then have "e = MergeError m c"
        using a v by (simp add: merge_pdfs_def)
      then show False
        using v Inl c validate_not_MergeError_Some by fastforce
    next
      case (Inr fo)
      obtain files out_path where fo: "fo = (files, out_path)"
        by (cases fo)
      have im: "import_convert env = Inr ()"
        using a v Inr fo
        by (cases "import_error env") (auto simp: merge_pdfs_def import_convert_def)
      obtain r2 fs2 where t: "TemporaryDirectory env fs1 = (r2, fs2)"
        by (cases "TemporaryDirectory env fs1")
      show False
      proof (cases r2)
        case (Inl e)
        then have "e = MergeError m c"
          using a v Inr fo im t by (simp add: merge_pdfs_def)
        moreover have "os_error e"
          using t Inl by (auto simp: TemporaryDirectory_def dest: mkdir_os_error split: sum.splits)
        ultimately show False
          by simp
      next
        case tmp: (Inr tmpdir)
        obtain r3 fs3 where b: "merge_body env files out_path tmpdir fs2 = (r3, fs3)"
          by (cases "merge_body env files out_path tmpdir fs2")
        show False
        proof (cases r3)
          case (Inl e)
          then have "reraise e = MergeError m c"
            using a v Inr fo im t tmp b by (simp add: merge_pdfs_def)
          moreover have "\<not> is_FileExistsError e"
            using b Inl merge_body_not_FEE by blast
          ultimately show False
            using c by (simp add: reraise_def)
        next
          case (Inr p)
          then show False
            using a v \<open>r = Inr fo\<close> fo im t tmp b by (simp add: merge_pdfs_def)
        qed
      qed
    qed
  qed
qed

theorem merge_pdfs_error_wrapping_witness:
  "fst (merge_pdfs env0 [''a.pdf'', ''notes.xyz''] ''out.pdf'' False fs0)
     = Inl (MergeError ''Failed to merge PDFs: Unsupported input type: notes.xyz''
              (Some (ValueError ''Unsupported input type: notes.xyz'')))
   \<and> fst (merge_pdfs env0 [''a.pdf''] ''old.pdf'' False fs0)
     = Inl (FileExistsError ''Output file already exists: /home/u/old.pdf'')"
proof -
  let ?v = "validate env0 [''a.pdf'', ''notes.xyz''] ''out.pdf'' False fs0"
  let ?t = "TemporaryDirectory env0 (snd ?v)"
  let ?b = "merge_body env0 [''a.pdf'', ''notes.xyz''] ''/home/u/out.pdf'' ''/tmp/tmpab12'' (snd ?t)"
  have "fst ?v = Inr ([''a.pdf'', ''notes.xyz''], ''/home/u/out.pdf'')"
    by code_simp
  then have v: "?v = (Inr ([''a.pdf'', ''notes.xyz''], ''/home/u/out.pdf''), snd ?v)"
    by (rule fst_eq_pair)
  have "fst ?t = Inr ''/tmp/tmpab12''"
    by code_simp
  then have t: "?t = (Inr ''/tmp/tmpab12'', snd ?t)"
    by (rule fst_eq_pair)
  have "fst ?b = Inl (ValueError ''Unsupported input type: notes.xyz'')"
    by code_simp
  then have b: "?b = (Inl (ValueError ''Unsupported input type: notes.xyz''), snd ?b)"
    by (rule fst_eq_pair)
  have i: "import_convert env0 = Inr ()"
    by code_simp
  note 1 = merge_pdfs_error_wrapping [of env0 "[''a.pdf'', ''notes.xyz'']" "''out.pdf''" False fs0,
      THEN conjunct1, rule_format, OF conjI [OF v conjI [OF i conjI [OF t b]]]]
  let ?w = "validate env0 [''a.pdf''] ''old.pdf'' False fs0"
  have "fst ?w = Inl (FileExistsError ''Output file already exists: /home/u/old.pdf'')"
    by code_simp
  then have w: "?w = (Inl (FileExistsError ''Output file already exists: /home/u/old.pdf''), snd ?w)"
    by (rule fst_eq_pair)
  note 2 = merge_pdfs_error_wrapping [of env0 "[''a.pdf'']" "''old.pdf''" False fs0,
      THEN conjunct2, THEN conjunct1, rule_format, OF w]
  show ?thesis
    using 1 2 by simp
qed

section \<open>Paths\<close>

lemma raw_head_tail: "raw_head p @ raw_tail p = p"
proof -
  have "rev (takeWhile (\<lambda>c. \<not> is_sep c) (rev p) @ dropWhile (\<lambda>c. \<not> is_sep c) (rev p)) = p"
    by simp
  then show ?thesis
    unfolding raw_head_def raw_tail_def by (simp only: rev_append)
qed

lemma raw_tail_nosep: "c \<in> set (raw_tail p) \<Longrightarrow> \<not> is_sep c"
  unfolding raw_tail_def by (auto dest: set_takeWhileD)

lemma raw_head_last: "raw_head p \<noteq> [] \<Longrightarrow> is_sep (last (raw_head p))"
proof -
  assume a: "raw_head p \<noteq> []"
  then have n: "dropWhile (\<lambda>c. \<not> is_sep c) (rev p) \<noteq> []"
    by (simp add: raw_head_def)
  then have "is_sep (hd (dropWhile (\<lambda>c. \<not> is_sep c) (rev p)))"
    using hd_dropWhile [of "\<lambda>c. \<not> is_sep c" "rev p"] by blast
  then show ?thesis
    using n by (simp add: raw_head_def last_rev)
qed

lemma raw_head_Nil: "(raw_head p = []) = (\<forall>c\<in>set p. \<not> is_sep c)"
  by (auto simp: raw_head_def)

lemma raw_tail_Nil: "(raw_tail p = []) = (p = [] \<or> is_sep (last p))"
proof (cases "rev p")
  case Nil
  then show ?thesis by (simp add: raw_tail_def)
next
  case (Cons x xs)
  then have "last p = x" "p \<noteq> []"
    by (metis last_rev list.sel(1) rev_rev_ident, auto)
  then show ?thesis
    using Cons by (simp add: raw_tail_def)
qed

lemma path_split_raw:
  "path_split p =
     (if raw_head p \<noteq> [] \<and> \<not> list_all is_sep (raw_head p) then rstrip_sep (raw_head p)
      else raw_head p, raw_tail p)"
  by (simp add: path_split_def raw_head_def raw_tail_def rstrip_sep_def Let_def)

lemma snd_path_split: "snd (path_split p) = raw_tail p"
  by (simp add: path_split_raw)

lemma dirname_raw:
  "dirname p =
     (if raw_head p \<noteq> [] \<and> \<not> list_all is_sep (raw_head p) then rstrip_sep (raw_head p)
      else raw_head p)"
  by (simp add: dirname_def path_split_raw)

lemma rstrip_sep_decomp: "\<exists>z. s = rstrip_sep s @ z \<and> list_all is_sep z"
proof -
  have "rev (takeWhile is_sep (rev s) @ dropWhile is_sep (rev s)) = s"
    by simp
  then have "s = rstrip_sep s @ rev (takeWhile is_sep (rev s))"
    unfolding rstrip_sep_def by (simp only: rev_append)
  moreover have "list_all is_sep (rev (takeWhile is_sep (rev s)))"
    by (auto simp: list_all_iff dest: set_takeWhileD)
  ultimately show ?thesis by blast
qed

lemma rstrip_sep_last: "rstrip_sep s \<noteq> [] \<Longrightarrow> \<not> is_sep (last (rstrip_sep s))"
proof -
  assume "rstrip_sep s \<noteq> []"
  then have n: "dropWhile is_sep (rev s) \<noteq> []"
    by (simp add: rstrip_sep_def)
  then have "\<not> is_sep (hd (dropWhile is_sep (rev s)))"
    using hd_dropWhile [of is_sep "rev s"] by blast
  then show ?thesis
    using n by (simp add: rstrip_sep_def last_rev)
qed

lemma rstrip_sep_Nil: "(rstrip_sep s = []) = list_all is_sep s"
  by (auto simp: rstrip_sep_def list_all_iff)

lemma prefix_rstrip_sep: "prefix (rstrip_sep s) s"
  using rstrip_sep_decomp [of s] by (metis prefixI)

lemma prefix_raw_head: "prefix (raw_head p) p"
  by (metis prefixI raw_head_tail)

lemma prefix_rstrip_raw_head: "prefix (rstrip_sep (raw_head p)) p"
  by (rule prefix_order.order_trans [OF prefix_rstrip_sep prefix_raw_head])

lemma prefix_dirname: "prefix (dirname p) p"
  unfolding dirname_raw
  by (simp add: prefix_raw_head prefix_rstrip_raw_head)

lemma length_dirname: "length (dirname p) \<le> length p"
  using prefix_dirname prefix_length_le by blast

lemma isabs_Cons: "isabs p = (\<exists>c r. p = c # r \<and> is_sep c)"
  by (cases p) (auto simp: isabs_def)

lemma isabs_prefix: "isabs q \<Longrightarrow> prefix q p \<Longrightarrow> isabs p"
  by (auto simp: isabs_Cons prefix_def)

lemma prefix_isabs: "isabs p \<Longrightarrow> prefix q p \<Longrightarrow> q \<noteq> [] \<Longrightarrow> isabs q"
  by (cases q) (auto simp: isabs_Cons prefix_def)

lemma isabs_dirname: "isabs p \<Longrightarrow> isabs (dirname p)"
proof -
  assume a: "isabs p"
  then have h: "raw_head p \<noteq> []"
    by (auto simp: raw_head_Nil isabs_Cons)
  show ?thesis
  proof (cases "list_all is_sep (raw_head p)")
    case True
    then show ?thesis
      using a h prefix_raw_head prefix_isabs by (simp add: dirname_raw)
  next
    case False
    then have "rstrip_sep (raw_head p) \<noteq> []"
      by (simp add: rstrip_sep_Nil)
    moreover have "prefix (rstrip_sep (raw_head p)) p"
      by (rule prefix_rstrip_raw_head)
    ultimately show ?thesis
      using a h False prefix_isabs by (simp add: dirname_raw)
  qed
qed

lemma isabs_nonempty: "isabs p \<Longrightarrow> p \<noteq> []"
  by (auto simp: isabs_Cons)

lemma all_sep_path_split: "list_all is_sep p \<Longrightarrow> path_split p = (p, [])"
proof -
  assume a: "list_all is_sep p"
  have t: "raw_tail p = []"
    using a by (cases p rule: rev_cases) (auto simp: raw_tail_Nil)
  then have "raw_head p = p"
    using raw_head_tail [of p] by simp
  then show ?thesis
    using a t by (simp add: path_split_raw)
qed

lemma dirname_tail_Nil:
  "raw_tail (dirname p) = [] \<Longrightarrow> list_all is_sep (dirname p)"
proof (cases "raw_head p \<noteq> [] \<and> \<not> list_all is_sep (raw_head p)")
  case True
  assume t: "raw_tail (dirname p) = []"
  have d: "dirname p = rstrip_sep (raw_head p)"
    using True by (simp add: dirname_raw)
  have "rstrip_sep (raw_head p) \<noteq> []"
    using True by (simp add: rstrip_sep_Nil)
  then have "\<not> is_sep (last (dirname p))" "dirname p \<noteq> []"
    using d rstrip_sep_last by auto
  then show ?thesis
    using t by (simp add: raw_tail_Nil)
next
  case False
  then show ?thesis
    by (auto simp: dirname_raw)
qed

lemma dirname_append_nosep:
  "\<forall>c\<in>set s. \<not> is_sep c \<Longrightarrow> dirname (p @ s) = dirname p"
proof -
  assume a: "\<forall>c\<in>set s. \<not> is_sep c"
  have "dropWhile (\<lambda>c. \<not> is_sep c) (rev s @ rev p) = dropWhile (\<lambda>c. \<not> is_sep c) (rev p)"
    using a by (intro dropWhile_append2) simp
  then have "raw_head (p @ s) = raw_head p"
    by (simp add: raw_head_def)
  then show ?thesis
    by (simp add: dirname_raw)
qed

lemma splitext_no_ext: "snd (splitext p) = [] \<Longrightarrow> fst (splitext p) = p"
  by (auto simp: splitext_def Let_def split: if_splits)

lemma py_split_nonempty: "py_split s \<noteq> []"
  by (induction s) (auto split: list.splits)

lemma py_split_append_sep: "is_sep c \<Longrightarrow> py_split (xs @ c # ys) = py_split xs @ py_split ys"
proof (induction xs)
  case Nil
  then show ?case by simp
next
  case (Cons x xs)
  then show ?case
    using py_split_nonempty [of xs] by (cases "py_split xs") (auto split: list.splits)
qed

lemma py_split_nosep: "\<forall>c\<in>set t. \<not> is_sep c \<Longrightarrow> py_split t = [t]"
  by (induction t) auto

lemma py_split_parts_nosep_all: "\<forall>w\<in>set (py_split s). \<forall>c\<in>set w. \<not> is_sep c"
proof (induction s)
  case Nil
  then show ?case by simp
next
  case (Cons x xs)
  show ?case
  proof (cases "is_sep x")
    case True
    then show ?thesis using Cons by simp
  next
    case False
    obtain a l where al: "py_split xs = a # l"
      using py_split_nonempty [of xs] by (cases "py_split xs") auto
    then have "py_split (x # xs) = (x # a) # l"
      using False by simp
    then show ?thesis
      using Cons al False by simp
  qed
qed

lemma py_split_parts_nosep: "w \<in> set (py_split s) \<Longrightarrow> c \<in> set w \<Longrightarrow> \<not> is_sep c"
  using py_split_parts_nosep_all by blast

lemma py_split_all_sep: "list_all is_sep s \<Longrightarrow> w \<in> set (py_split s) \<Longrightarrow> w = []"
  by (induction s arbitrary: w) auto

lemma py_split_append_all_sep:
  "list_all is_sep z \<Longrightarrow> set (py_split d) \<subseteq> set (py_split (d @ z))"
  by (cases z) (auto simp: py_split_append_sep)

lemma py_split_rstrip: "set (py_split (rstrip_sep s)) \<subseteq> set (py_split s)"
proof -
  obtain z where "s = rstrip_sep s @ z" "list_all is_sep z"
    using rstrip_sep_decomp by blast
  then show ?thesis
    using py_split_append_all_sep [of z "rstrip_sep s"] by simp
qed

lemma py_split_raw:
  "raw_head p \<noteq> [] \<Longrightarrow> py_split p = py_split (butlast (raw_head p)) @ [raw_tail p]"
proof -
  assume a: "raw_head p \<noteq> []"
  then have "raw_head p = butlast (raw_head p) @ [last (raw_head p)]"
    by simp
  then have "p = butlast (raw_head p) @ last (raw_head p) # raw_tail p"
    using raw_head_tail [of p] by (metis append.assoc append_Cons append_Nil)
  then have "py_split p = py_split (butlast (raw_head p)) @ py_split (raw_tail p)"
    using py_split_append_sep [OF raw_head_last [OF a], of "butlast (raw_head p)" "raw_tail p"]
    by simp
  then show ?thesis
    using py_split_nosep [of "raw_tail p"] raw_tail_nosep by auto
qed

lemma py_split_raw_head:
  "raw_head p \<noteq> [] \<Longrightarrow> set (py_split (raw_head p)) \<subseteq> insert [] (set (py_split p))"
proof -
  assume a: "raw_head p \<noteq> []"
  then have "raw_head p = butlast (raw_head p) @ last (raw_head p) # []"
    by simp
  then have "py_split (raw_head p) = py_split (butlast (raw_head p)) @ py_split []"
    using py_split_append_sep [OF raw_head_last [OF a], of "butlast (raw_head p)" "[]"] by simp
  then show ?thesis
    using py_split_raw [OF a] by auto
qed

lemma nodot_dirname: "nodot p \<Longrightarrow> nodot (dirname p)"
proof (cases "raw_head p = []")
  case True
  then show ?thesis by (simp add: dirname_raw nodot_def)
next
  case False
  assume n: "nodot p"
  have h: "''.'' \<notin> set (py_split (raw_head p))"
    using py_split_raw_head [OF False] n by (auto simp: nodot_def)
  then have "''.'' \<notin> set (py_split (rstrip_sep (raw_head p)))"
    using py_split_rstrip by blast
  then show ?thesis
    using h by (simp add: dirname_raw nodot_def)
qed

lemma nodot_tail: "nodot p \<Longrightarrow> raw_tail p \<noteq> ''.''"
proof (cases "raw_head p = []")
  case True
  assume n: "nodot p"
  have "raw_tail p = p"
    using True raw_head_tail [of p] by simp
  moreover have "py_split p = [p]"
    using True by (simp add: raw_head_Nil py_split_nosep)
  ultimately show ?thesis
    using n by (auto simp: nodot_def)
next
  case False
  assume "nodot p"
  then show ?thesis
    using py_split_raw [OF False] by (auto simp: nodot_def)
qed

lemma tidy_dirname: "isabs p \<Longrightarrow> nodot p \<Longrightarrow> tidy (dirname p)"
  by (simp add: tidy_def isabs_dirname nodot_dirname dirname_tail_Nil)

lemma tidy_makedirs_split: "tidy p \<Longrightarrow> makedirs_split p = path_split p"
  by (auto simp: makedirs_split_def snd_path_split tidy_def all_sep_path_split)

lemma norm_comps_step:
  "norm_comps initial (cmp # comps) new = norm_comps initial comps (norm_step initial cmp new)"
  unfolding norm_step_def norm_comps.simps by (simp only: if_distrib [of "norm_comps initial comps"])

lemma norm_step_set:
  "w \<in> set (norm_step initial cmp new) \<Longrightarrow> w \<in> set new \<or> (w = cmp \<and> cmp \<noteq> [] \<and> cmp \<noteq> ''.'')"
proof (cases "cmp = [] \<or> cmp = ''.''")
  case True
  assume "w \<in> set (norm_step initial cmp new)"
  then have "w \<in> set new"
    using True unfolding norm_step_def by (simp only: if_True)
  then show ?thesis
    by (rule disjI1)
next
  case False
  assume a: "w \<in> set (norm_step initial cmp new)"
  have "norm_step initial cmp new = new @ [cmp] \<or> norm_step initial cmp new = butlast new
        \<or> norm_step initial cmp new = new"
    unfolding norm_step_def by (simp only: False if_False) metis
  then show ?thesis
    using a False by (auto dest: in_set_butlastD)
qed

lemma norm_comps_parts:
  "w \<in> set (norm_comps initial comps new) \<Longrightarrow>
     w \<in> set new \<or> (w \<in> set comps \<and> w \<noteq> [] \<and> w \<noteq> ''.'')"
proof (induction comps arbitrary: new)
  case Nil
  then show ?case by (simp only: norm_comps.simps) simp
next
  case (Cons c comps)
  have "w \<in> set (norm_comps initial comps (norm_step initial c new))"
    using Cons.prems by (simp only: norm_comps_step)
  then have "w \<in> set (norm_step initial c new) \<or> (w \<in> set comps \<and> w \<noteq> [] \<and> w \<noteq> ''.'')"
    by (rule Cons.IH)
  then show ?case
    using norm_step_set [of w initial c new] by (metis list.set_intros(1) list.set_intros(2))
qed

lemma py_split_sep_join:
  "comps \<noteq> [] \<Longrightarrow> \<forall>w\<in>set comps. \<forall>c\<in>set w. \<not> is_sep c \<Longrightarrow> py_split (sep_join comps) = comps"
proof (induction comps rule: sep_join.induct)
  case 1
  then show ?case by simp
next
  case (2 x)
  then show ?case by (simp add: py_split_nosep)
next
  case (3 x y ys)
  have "py_split (x @ CHR ''/'' # sep_join (y # ys)) = py_split x @ py_split (sep_join (y # ys))"
    by (rule py_split_append_sep) (simp add: is_sep_def)
  then show ?case
    using 3 by (simp add: py_split_nosep)
qed

lemma py_split_replicate:
  "py_split (replicate n CHR ''/'' @ s) = replicate n [] @ py_split s"
  by (induction n) (simp_all add: is_sep_def)

lemma normpath_abs: "isabs q \<Longrightarrow> isabs (normpath q) \<and> nodot (normpath q)"
proof -
  assume a: "isabs q"
  define i :: nat where "i = (if prefix ''//'' q \<and> \<not> prefix ''///'' q then 2 else 1)"
  define comps where "comps = norm_comps True (py_split q) []"
  have q: "q \<noteq> []"
    using a by (rule isabs_nonempty)
  have i: "i \<noteq> 0" "0 < i"
    by (simp_all add: i_def)
  have r: "normpath q = replicate i CHR ''/'' @ sep_join comps"
    using a q i unfolding normpath_def Let_def i_def comps_def by simp
  have abs: "isabs (normpath q)"
    using i unfolding r by (cases i) (simp_all add: isabs_def is_sep_def)
  have parts: "w \<noteq> [] \<and> w \<noteq> ''.'' \<and> (\<forall>c\<in>set w. \<not> is_sep c)" if "w \<in> set comps" for w
    using that norm_comps_parts [of w True "py_split q" "[]"] py_split_parts_nosep [of w q]
    unfolding comps_def by auto
  have "''.'' \<notin> set (py_split (sep_join comps))"
  proof (cases "comps = []")
    case True
    then show ?thesis by simp
  next
    case False
    then have "py_split (sep_join comps) = comps"
      using parts by (intro py_split_sep_join) auto
    then show ?thesis
      using parts by auto
  qed
  then have "nodot (normpath q)"
    unfolding r nodot_def py_split_replicate by auto
  then show ?thesis
    using abs by simp
qed

lemma isabs_join: "isabs a \<Longrightarrow> isabs (join a b)"
  by (auto simp: join_def isabs_Cons)

lemma abspath_abs: "isabs d \<Longrightarrow> isabs (abspath d p) \<and> nodot (abspath d p)"
  unfolding abspath_def using normpath_abs [of p] normpath_abs [of "join d p"] isabs_join [of d p]
  by (cases "isabs p") simp_all

lemma is_sep_eq: "is_sep c \<Longrightarrow> c = CHR ''/''"
  by (simp add: is_sep_def)

lemma in_tree_refl: "in_tree d d"
  by (simp add: in_tree_def)

lemma in_tree_prefix: "in_tree k h \<Longrightarrow> prefix (h @ ''/'') p \<Longrightarrow> in_tree k p"
proof -
  assume a: "in_tree k h" and b: "prefix (h @ ''/'') p"
  have hp: "prefix h p"
    using b by (meson append_prefixD)
  show ?thesis
  proof (cases "k = h")
    case True
    then show ?thesis using b by (simp add: in_tree_def)
  next
    case False
    then have "prefix (k @ ''/'') h"
      using a by (simp add: in_tree_def)
    then have "prefix (k @ ''/'') p"
      using hp prefix_order.order_trans by blast
    then show ?thesis by (simp add: in_tree_def)
  qed
qed

lemma in_tree_length: "in_tree k p \<Longrightarrow> length k \<le> length p"
  by (auto simp: in_tree_def dest: prefix_length_le)

lemma rstrip_head_sep_prefix:
  "h \<noteq> [] \<Longrightarrow> is_sep (last h) \<Longrightarrow> \<not> list_all is_sep h \<Longrightarrow> prefix (rstrip_sep h @ ''/'') h"
proof -
  assume h: "h \<noteq> []" and l: "is_sep (last h)" and n: "\<not> list_all is_sep h"
  obtain z where z: "h = rstrip_sep h @ z" "list_all is_sep z"
    using rstrip_sep_decomp by blast
  have ne: "rstrip_sep h \<noteq> []"
    using n by (simp add: rstrip_sep_Nil)
  have "z \<noteq> []"
  proof
    assume "z = []"
    then have "h = rstrip_sep h" using z by simp
    then show False
      using rstrip_sep_last [OF ne] l by simp
  qed
  then obtain c z' where c: "z = c # z'"
    by (cases z) auto
  then have "c = CHR ''/''"
    using z(2) by (simp add: is_sep_def)
  then have "h = (rstrip_sep h @ ''/'') @ z'"
    using z(1) c by simp
  then show ?thesis
    by (metis prefixI)
qed

lemma dirname_sep_prefix:
  "dirname p \<noteq> [] \<Longrightarrow> \<not> list_all is_sep (dirname p) \<Longrightarrow> prefix (dirname p @ ''/'') p"
proof -
  assume d: "dirname p \<noteq> []" and n: "\<not> list_all is_sep (dirname p)"
  have h: "raw_head p \<noteq> []"
    using d by (auto simp: dirname_raw split: if_splits)
  have na: "\<not> list_all is_sep (raw_head p)"
    using n h by (auto simp: dirname_raw split: if_splits)
  have e: "dirname p = rstrip_sep (raw_head p)"
    using h na by (simp add: dirname_raw)
  have "prefix (rstrip_sep (raw_head p) @ ''/'') (raw_head p)"
    using h na raw_head_last by (intro rstrip_head_sep_prefix) auto
  then show ?thesis
    unfolding e using prefix_raw_head prefix_order.order_trans by blast
qed

lemma dirname_fixed_all_sep: "list_all is_sep p \<Longrightarrow> dirname p = p"
  by (simp add: dirname_def all_sep_path_split)

lemma fst_makedirs_split:
  "fst (makedirs_split name) = dirname name \<or> fst (makedirs_split name) = dirname (dirname name)"
  by (simp add: makedirs_split_def dirname_def)

lemma prefix_makedirs_head: "prefix (fst (makedirs_split name)) name"
  using fst_makedirs_split [of name] prefix_dirname [of name] prefix_dirname [of "dirname name"]
    prefix_order.order_trans by metis

lemma makedirs_head_sep_prefix:
  assumes "fst (makedirs_split name) \<noteq> []" "\<not> list_all is_sep (fst (makedirs_split name))"
  shows "prefix (fst (makedirs_split name) @ ''/'') name"
proof -
  consider (one) "fst (makedirs_split name) = dirname name"
    | (two) "fst (makedirs_split name) = dirname (dirname name)"
    using fst_makedirs_split by blast
  then show ?thesis
  proof cases
    case one
    then show ?thesis
      using assms dirname_sep_prefix [of name] by simp
  next
    case two
    then have "prefix (fst (makedirs_split name) @ ''/'') (dirname name)"
      using assms dirname_sep_prefix [of "dirname name"] by simp
    then show ?thesis
      using prefix_dirname prefix_order.order_trans by blast
  qed
qed

subsection \<open>Paths written as locations\<close>

lemma sep_join_snoc: "xs \<noteq> [] \<Longrightarrow> sep_join (xs @ [c]) = sep_join xs @ ''/'' @ c"
  by (induction xs rule: sep_join.induct) simp_all

lemma sep_join_append_last: "sep_join (xs @ [c]) @ s = sep_join (xs @ [c @ s])"
proof (cases "xs = []")
  case True
  then show ?thesis by simp
next
  case False
  then show ?thesis by (simp add: sep_join_snoc)
qed

lemma sep_join_hd:
  "cs \<noteq> [] \<Longrightarrow> hd cs \<noteq> [] \<Longrightarrow> sep_join cs \<noteq> [] \<and> hd (sep_join cs) = hd (hd cs)"
  by (induction cs rule: sep_join.induct) simp_all

lemma sep_join_last:
  "cs \<noteq> [] \<Longrightarrow> last cs \<noteq> [] \<Longrightarrow> sep_join cs \<noteq> [] \<and> last (sep_join cs) = last (last cs)"
  by (induction cs rule: sep_join.induct) simp_all

lemma root_cases: "root_of p = [] \<or> root_of p = ''/'' \<or> root_of p = ''//''"
  by (simp add: root_of_def)

lemma root_of_replicate:
  "isabs p \<Longrightarrow> root_of p
     = replicate (if prefix ''//'' p \<and> \<not> prefix ''///'' p then 2 else 1) CHR ''/''"
  by (simp add: root_of_def numeral_2_eq_2)

lemma dropWhile_sep_root:
  assumes "r = ''/'' \<or> r = ''//''" "x = [] \<or> \<not> is_sep (hd x)"
  shows "dropWhile is_sep (r @ x) = x"
  using assms by (cases x) (auto simp: is_sep_def)

lemma root_of_root:
  assumes "r = ''/'' \<or> r = ''//''" "x = [] \<or> \<not> is_sep (hd x)"
  shows "root_of (r @ x) = r"
  using assms by (cases x) (auto simp: root_of_def isabs_def is_sep_def)

lemma canonicalI:
  assumes r: "r = ''/'' \<or> r = ''//''"
    and cs: "\<forall>c\<in>set cs. plain c \<and> (\<forall>ch\<in>set c. \<not> is_sep ch)"
  shows "canonical (r @ sep_join cs)" "root_of (r @ sep_join cs) = r"
    "comps_of (r @ sep_join cs) = cs"
proof -
  have x: "sep_join cs = [] \<or> \<not> is_sep (hd (sep_join cs))"
  proof (cases cs)
    case Nil
    then show ?thesis by simp
  next
    case (Cons c cs')
    then have "hd cs \<noteq> []" "\<not> is_sep (hd (hd cs))"
      using cs by (auto simp: plain_def)
    then show ?thesis
      using sep_join_hd [of cs] Cons by simp
  qed
  have d: "dropWhile is_sep (r @ sep_join cs) = sep_join cs"
    using r x by (rule dropWhile_sep_root)
  show ro: "root_of (r @ sep_join cs) = r"
    using r x by (rule root_of_root)
  show co: "comps_of (r @ sep_join cs) = cs"
  proof (cases "cs = []")
    case True
    then have "dropWhile is_sep (r @ sep_join cs) = []"
      using d by simp
    then show ?thesis
      unfolding comps_of_def True by simp
  next
    case False
    then have "hd cs \<noteq> []"
      using cs by (cases cs) (auto simp: plain_def)
    then have ne: "sep_join cs \<noteq> []"
      using sep_join_hd [of cs] False by simp
    have "py_split (sep_join cs) = cs"
      using False cs by (intro py_split_sep_join) auto
    then show ?thesis
      using ne by (simp add: comps_of_def d)
  qed
  have "isabs (r @ sep_join cs)"
    using r by (auto simp: isabs_def is_sep_def)
  then show "canonical (r @ sep_join cs)"
    unfolding canonical_def ro co using cs by (simp add: list_all_iff)
qed

lemma canonicalD:
  assumes "canonical p"
  shows "root_of p = ''/'' \<or> root_of p = ''//''"
    "\<forall>c\<in>set (comps_of p). plain c \<and> (\<forall>ch\<in>set c. \<not> is_sep ch)"
    "p = root_of p @ sep_join (comps_of p)" "isabs p"
proof -
  show a: "isabs p" and "p = root_of p @ sep_join (comps_of p)"
    using assms by (simp_all add: canonical_def)
  show "root_of p = ''/'' \<or> root_of p = ''//''"
    using a by (simp add: root_of_def)
  have "\<forall>c\<in>set (comps_of p). \<forall>ch\<in>set c. \<not> is_sep ch"
    using py_split_parts_nosep_all [of "dropWhile is_sep p"] by (simp add: comps_of_def)
  then show "\<forall>c\<in>set (comps_of p). plain c \<and> (\<forall>ch\<in>set c. \<not> is_sep ch)"
    using assms by (simp add: canonical_def list_all_iff)
qed

lemma canonical_isabs: "canonical p \<Longrightarrow> isabs p"
  by (simp add: canonical_def)

lemma walk_dirs_plain: "\<forall>c\<in>set cs. plain c \<Longrightarrow> walk_dirs r cs names = []"
  by (induction cs arbitrary: names) (simp_all add: plain_def)

lemma canonical_walk: "canonical p \<Longrightarrow> must_be_dirs env p = []"
  using canonicalD(2) [of p]
  by (simp add: must_be_dirs_def full_path_def canonical_isabs walk_dirs_plain)

lemma walk_error_canonical: "canonical p \<Longrightarrow> walk_error env fs p = None"
  using canonical_isabs [of p] isabs_nonempty [of p]
  by (simp add: walk_error_def canonical_walk)

lemma norm_comps_skip: "norm_comps ini (replicate n [] @ cs) acc = norm_comps ini cs acc"
  by (induction n) simp_all

lemma norm_comps_plain: "\<forall>c\<in>set cs. plain c \<Longrightarrow> norm_comps ini cs acc = acc @ cs"
  by (induction cs arbitrary: acc) (simp_all add: plain_def)

lemma canonical_normpath:
  assumes "canonical p"
  shows "normpath p = p"
proof -
  note d = canonicalD [OF assms]
  have ne: "p \<noteq> []"
    using d(4) by (rule isabs_nonempty)
  define i :: nat where "i = (if prefix ''//'' p \<and> \<not> prefix ''///'' p then 2 else 1)"
  have r: "root_of p = replicate i CHR ''/''"
    unfolding i_def using d(4) by (rule root_of_replicate)
  have sp: "py_split p = replicate i [] @ py_split (sep_join (comps_of p))"
    using d(3) unfolding r by (metis py_split_replicate)
  have n: "norm_comps True (py_split p) [] = comps_of p"
  proof (cases "comps_of p = []")
    case True
    then show ?thesis
      unfolding sp norm_comps_skip by simp
  next
    case False
    then have "py_split (sep_join (comps_of p)) = comps_of p"
      using d(2) by (intro py_split_sep_join) auto
    then show ?thesis
      unfolding sp norm_comps_skip using d(2) by (simp add: norm_comps_plain)
  qed
  have "normpath p = replicate i CHR ''/'' @ sep_join (norm_comps True (py_split p) [])"
    using d(4) ne unfolding normpath_def Let_def i_def by simp
  then have "normpath p = replicate i CHR ''/'' @ sep_join (comps_of p)"
    unfolding n .
  then show ?thesis
    using d(3) r by simp
qed

lemma os_path_abs: "canonical p \<Longrightarrow> os_path env p = p"
  by (simp add: os_path_def abspath_def canonical_isabs canonical_normpath)

lemma norm_step_dotdot:
  assumes "''..'' \<notin> set new"
  shows "''..'' \<notin> set (norm_step True cmp new)"
proof -
  have "new \<noteq> [] \<longrightarrow> last new \<in> set new"
    by simp
  then have l: "new \<noteq> [] \<longrightarrow> last new \<noteq> ''..''"
    using assms by metis
  show ?thesis
    using assms l by (auto simp: norm_step_def dest: in_set_butlastD)
qed

lemma norm_comps_dotdot:
  "''..'' \<notin> set new \<Longrightarrow> ''..'' \<notin> set (norm_comps True comps new)"
proof (induction comps arbitrary: new)
  case Nil
  then show ?case by simp
next
  case (Cons c comps)
  have "''..'' \<notin> set (norm_step True c new)"
    using Cons.prems by (rule norm_step_dotdot)
  then have "''..'' \<notin> set (norm_comps True comps (norm_step True c new))"
    by (rule Cons.IH)
  then show ?case
    unfolding norm_comps_step .
qed

lemma canonical_normpath_abs:
  assumes "isabs q"
  shows "canonical (normpath q)"
proof -
  define i :: nat where "i = (if prefix ''//'' q \<and> \<not> prefix ''///'' q then 2 else 1)"
  define comps where "comps = norm_comps True (py_split q) []"
  have q: "q \<noteq> []"
    using assms by (rule isabs_nonempty)
  have r: "normpath q = replicate i CHR ''/'' @ sep_join comps"
    using assms q unfolding normpath_def Let_def i_def comps_def by simp
  have i: "replicate i CHR ''/'' = ''/'' \<or> replicate i CHR ''/'' = ''//''"
    by (simp add: i_def numeral_2_eq_2)
  have dd: "''..'' \<notin> set comps"
    unfolding comps_def by (rule norm_comps_dotdot) simp
  have "plain w \<and> (\<forall>c\<in>set w. \<not> is_sep c)" if "w \<in> set comps" for w
    using that dd norm_comps_parts [of w True "py_split q" "[]"] py_split_parts_nosep [of w q]
    unfolding comps_def plain_def by auto
  then have "\<forall>c\<in>set comps. plain c \<and> (\<forall>ch\<in>set c. \<not> is_sep ch)"
    by blast
  with i show ?thesis
    unfolding r by (rule canonicalI(1))
qed

lemma canonical_abspath: "isabs d \<Longrightarrow> canonical (abspath d p)"
  unfolding abspath_def using isabs_join [of d p]
  by (cases "isabs p") (simp_all add: canonical_normpath_abs)

lemma canonical_os_path: "isabs (cwd env) \<Longrightarrow> canonical (os_path env p)"
  unfolding os_path_def by (rule canonical_abspath)

lemma canonical_root: "r = ''/'' \<or> r = ''//'' \<Longrightarrow> canonical r"
  using canonicalI(1) [of r "[]"] by simp

lemma canonical_dirname:
  assumes "canonical p"
  shows "canonical (dirname p)"
proof -
  note d = canonicalD [OF assms]
  define r where "r = root_of p"
  define cs where "cs = comps_of p"
  have p: "p = r @ sep_join cs"
    using d(3) by (simp add: r_def cs_def)
  have r: "r = ''/'' \<or> r = ''//''"
    using d(1) by (simp add: r_def)
  have cs: "\<forall>c\<in>set cs. plain c \<and> (\<forall>ch\<in>set c. \<not> is_sep ch)"
    using d(2) by (simp add: cs_def)
  show ?thesis
  proof (cases cs rule: rev_cases)
    case Nil
    then have "list_all is_sep p"
      using r p by (auto simp: is_sep_def)
    then have "dirname p = p"
      by (rule dirname_fixed_all_sep)
    then show ?thesis
      using assms by simp
  next
    case (snoc xs c)
    have c: "\<forall>ch\<in>set c. \<not> is_sep ch" "c \<noteq> []"
      using cs snoc by (auto simp: plain_def)
    have xs: "\<forall>c\<in>set xs. plain c \<and> (\<forall>ch\<in>set c. \<not> is_sep ch)"
      using cs snoc by simp
    show ?thesis
    proof (cases "xs = []")
      case True
      then have "dirname p = dirname r"
        using p snoc c(1) by (simp add: dirname_append_nosep)
      moreover have "list_all is_sep r"
        using r by (auto simp: is_sep_def)
      ultimately have "dirname p = r"
        by (simp add: dirname_fixed_all_sep)
      then show ?thesis
        using canonical_root [OF r] by simp
    next
      case False
      define h where "h = r @ sep_join xs"
      have "p = (h @ ''/'') @ c"
        using p snoc False by (simp add: sep_join_snoc h_def)
      then have dp: "dirname p = dirname (h @ ''/'')"
        using c(1) by (simp only: dirname_append_nosep)
      have "last xs \<in> set xs"
        using False by simp
      then have "plain (last xs) \<and> (\<forall>ch\<in>set (last xs). \<not> is_sep ch)"
        using xs by blast
      then have lx: "last xs \<noteq> []" "\<not> is_sep (last (last xs))"
        by (simp_all add: plain_def)
      have sl: "sep_join xs \<noteq> []" "\<not> is_sep (last (sep_join xs))"
        using sep_join_last [OF False lx(1)] lx(2) by simp_all
      then have hl: "h \<noteq> []" "\<not> is_sep (last h)"
        by (simp_all add: h_def)
      have rh: "raw_head (h @ ''/'') = h @ ''/''"
        by (simp add: raw_head_def is_sep_def)
      have na: "\<not> list_all is_sep (h @ ''/'')"
        using hl by (auto simp: list_all_iff dest: last_in_set)
      have rs: "rstrip_sep (h @ ''/'') = h"
      proof -
        have "dropWhile is_sep (rev h) = rev h"
          using hl by (cases "rev h") (simp_all add: last_rev [symmetric] hd_rev)
        then show ?thesis
          by (simp add: rstrip_sep_def is_sep_def)
      qed
      have "dirname (h @ ''/'') = h"
        unfolding dirname_raw rh using na rs by simp
      then show ?thesis
        unfolding dp h_def using canonicalI(1) [OF r xs] by simp
    qed
  qed
qed

lemma canonical_tidy:
  assumes "canonical p"
  shows "tidy p"
proof -
  note d = canonicalD [OF assms]
  have n: "nodot p"
    using normpath_abs [OF d(4)] canonical_normpath [OF assms] by simp
  have "list_all is_sep p" if t: "raw_tail p = []"
  proof (cases "comps_of p = []")
    case True
    then show ?thesis
      using d(1,3) by (auto simp: is_sep_def)
  next
    case False
    then have l: "last (comps_of p) \<in> set (comps_of p)"
      by simp
    then have "last (comps_of p) \<noteq> []" "\<not> is_sep (last (last (comps_of p)))"
      using d(2) by (auto simp: plain_def)
    then have "sep_join (comps_of p) \<noteq> []" "\<not> is_sep (last (sep_join (comps_of p)))"
      using sep_join_last [OF False] by simp_all
    then have "\<not> is_sep (last p)"
      using d(3) by (metis last_appendR)
    then show ?thesis
      using t d(4) isabs_nonempty by (simp add: raw_tail_Nil)
  qed
  then show ?thesis
    using d(4) n by (simp add: tidy_def)
qed

lemma canonical_join:
  assumes "canonical T" "\<not> is_sep (last T)" "plain n" "\<forall>ch\<in>set n. \<not> is_sep ch"
  shows "join T n = T @ ''/'' @ n" "canonical (join T n)"
proof -
  note d = canonicalD [OF assms(1)]
  have ne: "T \<noteq> []"
    using d(4) by (rule isabs_nonempty)
  have "\<not> isabs n"
    using assms(3,4) by (cases n) (auto simp: isabs_def plain_def)
  then show j: "join T n = T @ ''/'' @ n"
    using ne assms(2) by (simp add: join_def)
  have cn: "comps_of T \<noteq> []"
  proof
    assume "comps_of T = []"
    then have "T = root_of T"
      using d(3) by simp
    then have "is_sep (last T)"
      using d(1) by (auto simp: is_sep_def)
    then show False
      using assms(2) by simp
  qed
  have "T @ ''/'' @ n = root_of T @ sep_join (comps_of T @ [n])"
    using d(3) cn by (simp add: sep_join_snoc)
  moreover have "canonical (root_of T @ sep_join (comps_of T @ [n]))"
    using d(1) by (rule canonicalI(1)) (use d(2) assms(3,4) in auto)
  ultimately show "canonical (join T n)"
    unfolding j by simp
qed

lemma canonical_append_pdf:
  assumes "canonical p"
  shows "canonical (p @ ''.pdf'')"
proof -
  note d = canonicalD [OF assms]
  have pl: "plain (c @ ''.pdf'') \<and> (\<forall>ch\<in>set (c @ ''.pdf''). \<not> is_sep ch)"
    if "\<forall>ch\<in>set c. \<not> is_sep ch" for c
    using that by (cases c) (auto simp: plain_def is_sep_def)
  show ?thesis
  proof (cases "comps_of p" rule: rev_cases)
    case Nil
    then have "p @ ''.pdf'' = root_of p @ sep_join [''.pdf'']"
      using d(3) by simp
    moreover have "canonical (root_of p @ sep_join [''.pdf''])"
      using d(1) by (rule canonicalI(1)) (simp add: plain_def is_sep_def)
    ultimately show ?thesis
      by simp
  next
    case (snoc xs c)
    have "p @ ''.pdf'' = root_of p @ (sep_join (xs @ [c]) @ ''.pdf'')"
      using d(3) snoc by simp
    then have "p @ ''.pdf'' = root_of p @ sep_join (xs @ [c @ ''.pdf''])"
      by (simp only: sep_join_append_last)
    moreover have "canonical (root_of p @ sep_join (xs @ [c @ ''.pdf'']))"
      using d(1)
    proof (rule canonicalI(1))
      show "\<forall>c\<in>set (xs @ [c @ ''.pdf'']). plain c \<and> (\<forall>ch\<in>set c. \<not> is_sep ch)"
        using d(2) snoc pl [of c] by auto
    qed
    ultimately show ?thesis
      by simp
  qed
qed

lemma path_name_nosep: "c \<in> set (path_name p) \<Longrightarrow> \<not> is_sep c"
proof -
  assume c: "c \<in> set (path_name p)"
  then have ne: "filter (\<lambda>x. x \<noteq> [] \<and> x \<noteq> ''.'') (py_split p) \<noteq> []"
    by (auto simp: path_name_def Let_def split: if_splits)
  then have "last (filter (\<lambda>x. x \<noteq> [] \<and> x \<noteq> ''.'') (py_split p))
               \<in> set (filter (\<lambda>x. x \<noteq> [] \<and> x \<noteq> ''.'') (py_split p))"
    by (rule last_in_set)
  then have "path_name p \<in> set (py_split p)"
    using ne by (simp add: path_name_def)
  then show ?thesis
    using c by (rule py_split_parts_nosep)
qed

lemma path_stem_nosep: "c \<in> set (path_stem p) \<Longrightarrow> \<not> is_sep c"
proof -
  assume c: "c \<in> set (path_stem p)"
  have t: "set (tl xs) \<subseteq> set xs" for xs :: string
    by (cases xs) auto
  have "set (path_stem p) \<subseteq> set (path_name p)"
    unfolding path_stem_def Let_def
    using t [of "dropWhile (\<lambda>c. \<not> is_dot c) (rev (path_name p))"]
    by (auto dest!: set_dropWhileD)
  then show ?thesis
    using c path_name_nosep by blast
qed

subsection \<open>Making directories\<close>

lemma lookup_abs: "canonical p \<Longrightarrow> lookup env fs p = fs p"
  by (simp add: lookup_def walk_error_canonical os_path_abs)

lemma path_exists_abs: "canonical p \<Longrightarrow> path_exists env fs p = (fs p \<noteq> None)"
  by (simp add: path_exists_def lookup_abs)

lemma isdir_abs: "canonical p \<Longrightarrow> isdir env fs p = (fs p = Some Dir)"
  by (simp add: isdir_def lookup_abs)

lemma parent_error_abs:
  "canonical p \<Longrightarrow> parent_error env fs p =
     (case fs (dirname p) of
        None \<Rightarrow> Some (file_not_found_error p)
      | Some (File c) \<Rightarrow> Some (not_a_directory_error p)
      | Some Dir \<Rightarrow> None)"
  by (simp add: parent_error_def walk_error_canonical os_path_abs)

lemma mkdir_Inr:
  "canonical p \<Longrightarrow> mkdir env fs p = Inr fs' \<Longrightarrow>
     fs p = None \<and> fs (dirname p) = Some Dir \<and> fs' = fs(p \<mapsto> Dir)"
  by (auto simp: mkdir_def path_exists_abs os_path_abs parent_error_abs
           split: if_splits option.splits node.splits)

lemma mkdir_exist_ok_cases:
  assumes "canonical p" "mkdir_exist_ok env fs p = (r, fs1)"
  shows "(r = Inr () \<and> fs p = None \<and> fs (dirname p) = Some Dir \<and> fs1 = fs(p \<mapsto> Dir))
         \<or> (r = Inr () \<and> fs p = Some Dir \<and> fs1 = fs)
         \<or> ((\<exists>e. r = Inl e) \<and> fs1 = fs)"
proof (cases "mkdir env fs p")
  case (Inl e)
  then show ?thesis
    using assms by (auto simp: mkdir_exist_ok_def isdir_abs split: if_splits)
next
  case (Inr fs')
  then show ?thesis
    using assms mkdir_Inr [OF assms(1) Inr] by (auto simp: mkdir_exist_ok_def)
qed

lemma mkdir_exist_ok_succeeds:
  "canonical p \<Longrightarrow> fs p = None \<Longrightarrow> fs (dirname p) = Some Dir \<Longrightarrow>
     mkdir_exist_ok env fs p = (Inr (), fs(p \<mapsto> Dir))"
  by (simp add: mkdir_exist_ok_def mkdir_def path_exists_abs os_path_abs parent_error_abs)

lemma makedirs_unfold:
  "makedirs env fs name =
     (if fst (makedirs_split name) \<noteq> [] \<and> snd (makedirs_split name) \<noteq> []
         \<and> \<not> path_exists env fs (fst (makedirs_split name))
      then
        (case makedirs env fs (fst (makedirs_split name)) of
           (Inl e, fs1) \<Rightarrow>
             if is_FileExistsError e
             then (if snd (makedirs_split name) = ''.'' then (Inr (), fs1)
                   else mkdir_exist_ok env fs1 name)
             else (Inl e, fs1)
         | (Inr u, fs1) \<Rightarrow>
             if snd (makedirs_split name) = ''.'' then (Inr (), fs1)
             else mkdir_exist_ok env fs1 name)
      else mkdir_exist_ok env fs name)"
  by (rule makedirs.simps)

lemma created_refl: "created fs fs name"
  by (simp add: created_def)

lemma created_mkdir:
  assumes "created fs fs1 h" "fs1 p = None" "fs1 (dirname p) = Some Dir"
    and "\<And>k. in_tree k h \<Longrightarrow> dirname k \<noteq> k \<Longrightarrow> in_tree k p"
  shows "created fs (fs1(p \<mapsto> Dir)) p"
  unfolding created_def
proof
  fix k
  show "(fs1(p \<mapsto> Dir)) k = fs k
        \<or> (fs k = None \<and> (fs1(p \<mapsto> Dir)) k = Some Dir \<and> dirname k \<noteq> k \<and> in_tree k p)"
  proof (cases "k = p")
    case True
    have "fs p = None"
      using assms(1,2) unfolding created_def by (metis option.distinct(1))
    moreover have "dirname p \<noteq> p"
      using assms(2,3) by auto
    ultimately show ?thesis
      using True by (simp add: in_tree_refl)
  next
    case False
    then show ?thesis
      using assms(1,4) unfolding created_def by (metis fun_upd_other)
  qed
qed

lemma created_up:
  assumes "created fs fs1 h" "\<And>k. in_tree k h \<Longrightarrow> dirname k \<noteq> k \<Longrightarrow> in_tree k p"
  shows "created fs fs1 p"
  using assms unfolding created_def by metis

lemma in_tree_all_sep: "in_tree k h \<Longrightarrow> list_all is_sep h \<Longrightarrow> list_all is_sep k"
  by (auto simp: in_tree_def prefix_def list_all_iff)

lemma in_tree_head_up:
  assumes "in_tree k (fst (makedirs_split name))" "dirname k \<noteq> k"
  shows "in_tree k name"
proof -
  have k: "\<not> list_all is_sep k"
    using assms(2) dirname_fixed_all_sep by blast
  then have n: "\<not> list_all is_sep (fst (makedirs_split name))"
    using assms(1) in_tree_all_sep by blast
  then have "fst (makedirs_split name) \<noteq> []"
    by auto
  then have "prefix (fst (makedirs_split name) @ ''/'') name"
    using n by (rule makedirs_head_sep_prefix)
  then show ?thesis
    using assms(1) in_tree_prefix by blast
qed

lemma isabs_makedirs_head:
  "isabs name \<Longrightarrow> fst (makedirs_split name) \<noteq> [] \<Longrightarrow> isabs (fst (makedirs_split name))"
  using prefix_makedirs_head prefix_isabs by blast

lemma canonical_makedirs_head: "canonical name \<Longrightarrow> canonical (fst (makedirs_split name))"
  using canonical_dirname [of name] tidy_makedirs_split [OF canonical_tidy, of name]
  by (simp add: dirname_def)

lemma created_mkdir_exist_ok:
  assumes "canonical name" "created fs fs' h" "mkdir_exist_ok env fs' name = (r, fs1)"
    and "\<And>k. in_tree k h \<Longrightarrow> dirname k \<noteq> k \<Longrightarrow> in_tree k name"
  shows "created fs fs1 name"
proof -
  consider (new) "fs' name = None" "fs' (dirname name) = Some Dir" "fs1 = fs'(name \<mapsto> Dir)"
    | (same) "fs1 = fs'"
    using mkdir_exist_ok_cases [OF assms(1,3)] by auto
  then show ?thesis
  proof cases
    case new
    then show ?thesis
      using created_mkdir [OF assms(2) new(1,2) assms(4)] by simp
  next
    case same
    then show ?thesis
      using created_up [OF assms(2,4)] by simp
  qed
qed

lemma makedirs_rec:
  assumes "fst (makedirs_split name) \<noteq> []" "snd (makedirs_split name) \<noteq> []"
    "\<not> path_exists env fs (fst (makedirs_split name))"
  shows "makedirs env fs name =
     (case makedirs env fs (fst (makedirs_split name)) of
           (Inl e, fs1) \<Rightarrow>
             if is_FileExistsError e
             then (if snd (makedirs_split name) = ''.'' then (Inr (), fs1)
                   else mkdir_exist_ok env fs1 name)
             else (Inl e, fs1)
         | (Inr u, fs1) \<Rightarrow>
             if snd (makedirs_split name) = ''.'' then (Inr (), fs1)
             else mkdir_exist_ok env fs1 name)"
proof -
  have c: "(fst (makedirs_split name) \<noteq> [] \<and> snd (makedirs_split name) \<noteq> []
         \<and> \<not> path_exists env fs (fst (makedirs_split name))) = True"
    using assms by blast
  show ?thesis
    by (subst makedirs_unfold) (simp only: c if_True)
qed

lemma makedirs_norec:
  assumes "\<not> (fst (makedirs_split name) \<noteq> [] \<and> snd (makedirs_split name) \<noteq> []
         \<and> \<not> path_exists env fs (fst (makedirs_split name)))"
  shows "makedirs env fs name = mkdir_exist_ok env fs name"
proof -
  have c: "(fst (makedirs_split name) \<noteq> [] \<and> snd (makedirs_split name) \<noteq> []
         \<and> \<not> path_exists env fs (fst (makedirs_split name))) = False"
    using assms by blast
  show ?thesis
    by (subst makedirs_unfold) (simp only: c if_False)
qed

lemma makedirs_rec_cases:
  assumes "fst (makedirs_split name) \<noteq> [] \<and> snd (makedirs_split name) \<noteq> []
    \<and> \<not> path_exists env fs (fst (makedirs_split name))"
    and "makedirs env fs (fst (makedirs_split name)) = (r', fs')"
    and "makedirs env fs name = (r, fs1)"
  shows "(fs1 = fs' \<and> r = r' \<and> (\<exists>e. r' = Inl e))
         \<or> (fs1 = fs' \<and> r = Inr () \<and> is_curdir (snd (makedirs_split name)))
         \<or> (mkdir_exist_ok env fs' name = (r, fs1) \<and> \<not> is_curdir (snd (makedirs_split name)))"
proof -
  have "makedirs env fs name =
     (case (r', fs') of
           (Inl e, fs1) \<Rightarrow>
             if is_FileExistsError e
             then (if is_curdir (snd (makedirs_split name)) then (Inr (), fs1)
                   else mkdir_exist_ok env fs1 name)
             else (Inl e, fs1)
         | (Inr u, fs1) \<Rightarrow>
             if is_curdir (snd (makedirs_split name)) then (Inr (), fs1)
             else mkdir_exist_ok env fs1 name)"
    using assms(1) makedirs_rec [of name env fs] unfolding assms(2) is_curdir_def by simp
  then show ?thesis
    using assms(3) by (cases r') (auto split: if_splits)
qed

lemma makedirs_created:
  "canonical name \<Longrightarrow> makedirs env fs name = (r, fs1) \<Longrightarrow> created fs fs1 name"
proof (induction env fs name arbitrary: r fs1 rule: makedirs.induct)
  case (1 env fs name)
  let ?h = "fst (makedirs_split name)"
  let ?t = "snd (makedirs_split name)"
  show ?case
  proof (cases "?h \<noteq> [] \<and> ?t \<noteq> [] \<and> \<not> path_exists env fs ?h")
    case False
    then have "mkdir_exist_ok env fs name = (r, fs1)"
      using "1.prems"(2) makedirs_norec by metis
    then show ?thesis
      using created_mkdir_exist_ok [OF "1.prems"(1) created_refl [of fs name]] by blast
  next
    case True
    obtain r' fs' where rec: "makedirs env fs ?h = (r', fs')"
      by (cases "makedirs env fs ?h")
    have "canonical ?h"
      using "1.prems"(1) by (rule canonical_makedirs_head)
    then have c: "created fs fs' ?h"
      using "1.IH" [OF True _ rec] by blast
    have up: "\<And>k. in_tree k ?h \<Longrightarrow> dirname k \<noteq> k \<Longrightarrow> in_tree k name"
      by (rule in_tree_head_up)
    consider (stop) "fs1 = fs'" | (mk) "mkdir_exist_ok env fs' name = (r, fs1)"
      using makedirs_rec_cases [OF True rec "1.prems"(2)] by auto
    then show ?thesis
    proof cases
      case stop
      then show ?thesis
        using created_up [OF c up] by simp
    next
      case mk
      then show ?thesis
        using created_mkdir_exist_ok [OF "1.prems"(1) c mk up] by simp
    qed
  qed
qed

lemma makedirs_isdir:
  assumes "canonical name" "makedirs env fs name = (Inr u, fs1)"
    "snd (makedirs_split name) \<noteq> ''.''"
  shows "fs1 name = Some Dir"
proof -
  let ?h = "fst (makedirs_split name)"
  let ?t = "snd (makedirs_split name)"
  have mk: "fs' name = Some Dir \<or> (fs' name = None \<and> fs1 name = Some Dir)"
    if "mkdir_exist_ok env fs' name = (Inr u, fs1)" for fs'
    using mkdir_exist_ok_cases [OF assms(1) that] by auto
  have mk': "fs1 name = Some Dir" if "mkdir_exist_ok env fs' name = (Inr u, fs1)" for fs'
    using mkdir_exist_ok_cases [OF assms(1) that] by auto
  show ?thesis
  proof (cases "?h \<noteq> [] \<and> ?t \<noteq> [] \<and> \<not> path_exists env fs ?h")
    case False
    then have "mkdir_exist_ok env fs name = (Inr u, fs1)"
      using assms(2) makedirs_norec by metis
    then show ?thesis by (rule mk')
  next
    case True
    obtain r' fs' where rec: "makedirs env fs ?h = (r', fs')"
      by (cases "makedirs env fs ?h")
    have "mkdir_exist_ok env fs' name = (Inr u, fs1)"
      using makedirs_rec_cases [OF True rec assms(2)] assms(3) by (auto simp: is_curdir_def)
    then show ?thesis by (rule mk')
  qed
qed

lemma tidy_head:
  assumes "tidy name"
  shows "fst (makedirs_split name) = dirname name" "snd (makedirs_split name) = raw_tail name"
    "tidy (dirname name)" "snd (makedirs_split name) \<noteq> ''.''" "isabs name"
    "isabs (dirname name)"
proof -
  have a: "isabs name" and n: "nodot name"
    using assms by (simp_all add: tidy_def)
  have m: "makedirs_split name = path_split name"
    using assms by (rule tidy_makedirs_split)
  show "fst (makedirs_split name) = dirname name"
    by (simp add: m dirname_def)
  show t: "snd (makedirs_split name) = raw_tail name"
    by (simp add: m snd_path_split)
  show "tidy (dirname name)"
    using a n by (rule tidy_dirname)
  show "snd (makedirs_split name) \<noteq> ''.''"
    unfolding t using n by (rule nodot_tail)
  show "isabs name"
    by (rule a)
  show "isabs (dirname name)"
    using a by (rule isabs_dirname)
qed

lemma dirname_fixed_tail: "dirname p = p \<Longrightarrow> raw_tail p = []"
proof -
  assume a: "dirname p = p"
  have "prefix (dirname p) (raw_head p)"
    unfolding dirname_raw by (simp add: prefix_rstrip_sep)
  then have "length p \<le> length (raw_head p)"
    using a prefix_length_le by fastforce
  moreover have "length p = length (raw_head p) + length (raw_tail p)"
    by (metis length_append raw_head_tail)
  ultimately show ?thesis by simp
qed

lemma length_dirname_less: "raw_tail p \<noteq> [] \<Longrightarrow> length (dirname p) < length p"
proof -
  assume a: "raw_tail p \<noteq> []"
  have "prefix (dirname p) (raw_head p)"
    unfolding dirname_raw by (simp add: prefix_rstrip_sep)
  then have "length (dirname p) \<le> length (raw_head p)"
    by (rule prefix_length_le)
  moreover have "length p = length (raw_head p) + length (raw_tail p)"
    by (metis length_append raw_head_tail)
  ultimately show ?thesis using a by (cases "raw_tail p") auto
qed

lemma wf_fs_parent:
  "wf_fs fs \<Longrightarrow> fs p \<noteq> None \<Longrightarrow> raw_tail p \<noteq> [] \<Longrightarrow> fs (dirname p) = Some Dir"
  using dirname_fixed_tail unfolding wf_fs_def by blast

lemma makedirs_no_recursion:
  assumes "wf_fs fs" "canonical name" "fs name \<noteq> None"
  shows "\<not> (fst (makedirs_split name) \<noteq> [] \<and> snd (makedirs_split name) \<noteq> []
            \<and> \<not> path_exists env fs (fst (makedirs_split name)))"
proof
  assume a: "fst (makedirs_split name) \<noteq> [] \<and> snd (makedirs_split name) \<noteq> []
            \<and> \<not> path_exists env fs (fst (makedirs_split name))"
  then have "raw_tail name \<noteq> []"
    using tidy_head(2) [OF canonical_tidy [OF assms(2)]] by simp
  then have "fs (dirname name) = Some Dir"
    using assms(1,3) wf_fs_parent by blast
  then show False
    using a tidy_head(1) [OF canonical_tidy [OF assms(2)]] canonical_dirname [OF assms(2)]
    by (simp add: path_exists_abs)
qed

lemma makedirs_existing:
  assumes "wf_fs fs" "canonical name" "fs name \<noteq> None" "makedirs env fs name = (r, fs1)"
  shows "fs1 = fs"
proof -
  have nr: "makedirs env fs name = mkdir_exist_ok env fs name"
    by (rule makedirs_norec [OF makedirs_no_recursion [OF assms(1-3)]])
  have "mkdir_exist_ok env fs name = (r, fs1)"
    using assms(4) unfolding nr .
  then show ?thesis
    using mkdir_exist_ok_cases [OF assms(2), of env fs r fs1] assms(3) by auto
qed

lemma makedirs_failure:
  "wf_fs fs \<Longrightarrow> canonical name \<Longrightarrow> makedirs env fs name = (Inl e, fs1) \<Longrightarrow> fs1 = fs"
proof (induction env fs name arbitrary: e fs1 rule: makedirs.induct)
  case (1 env fs name)
  let ?h = "fst (makedirs_split name)"
  let ?t = "snd (makedirs_split name)"
  note cn = "1.prems"(2)
  note td = tidy_head [OF canonical_tidy [OF cn]]
  show ?case
  proof (cases "?h \<noteq> [] \<and> ?t \<noteq> [] \<and> \<not> path_exists env fs ?h")
    case False
    then have "mkdir_exist_ok env fs name = (Inl e, fs1)"
      using "1.prems"(3) makedirs_norec by metis
    then show ?thesis
      using mkdir_exist_ok_cases [OF cn] by blast
  next
    case True
    obtain r' fs' where rec: "makedirs env fs ?h = (r', fs')"
      by (cases "makedirs env fs ?h")
    have th: "canonical ?h"
      using cn by (rule canonical_makedirs_head)
    have nc: "\<not> is_curdir ?t"
      using td(4) by (simp add: is_curdir_def)
    note rc = makedirs_rec_cases [OF True rec "1.prems"(3)]
    show ?thesis
    proof (cases r')
      case (Inl e')
      then have "fs' = fs"
        using "1.IH" [OF True "1.prems"(1) th] rec by blast
      moreover have "fs1 = fs' \<or> mkdir_exist_ok env fs' name = (Inl e, fs1)"
        using rc by auto
      ultimately show ?thesis
        using mkdir_exist_ok_cases [OF cn] by blast
    next
      case (Inr u)
      then have mk: "mkdir_exist_ok env fs' name = (Inl e, fs1)"
        using rc nc by auto
      have hdir: "fs' ?h = Some Dir"
        using rec Inr
        by (intro makedirs_isdir [of ?h env fs u fs'] th tidy_head(4) [OF canonical_tidy [OF th]])
           simp
      have c: "created fs fs' ?h"
        using th rec by (rule makedirs_created)
      have tl: "raw_tail name \<noteq> []"
        using True td(2) by simp
      have "fs ?h = None"
        using True th by (simp add: path_exists_abs)
      then have "fs name = None"
        using wf_fs_parent [OF "1.prems"(1) _ tl] td(1) by fastforce
      moreover have "\<not> in_tree name ?h"
        using in_tree_length [of name ?h] length_dirname_less [OF tl] td(1) by auto
      ultimately have "fs' name = None"
        using c unfolding created_def by metis
      then have "mkdir_exist_ok env fs' name = (Inr (), fs'(name \<mapsto> Dir))"
        using hdir td(1) cn by (intro mkdir_exist_ok_succeeds) simp_all
      then show ?thesis
        using mk by simp
    qed
  qed
qed

lemma created_not_child:
  assumes "created fs fs1 (dirname p)" "fs p = None"
  shows "fs1 p = None"
proof (rule ccontr)
  assume "fs1 p \<noteq> None"
  then have n: "dirname p \<noteq> p" and t: "in_tree p (dirname p)"
    using assms unfolding created_def by (metis)+
  have "length p \<le> length (dirname p)"
    using t by (rule in_tree_length)
  moreover obtain zs where "p = dirname p @ zs"
    using prefix_dirname [of p] by (auto simp: prefix_def)
  ultimately have "dirname p = p"
    by (metis append_self_conv length_append add_le_same_cancel1 le_zero_eq length_0_conv)
  then show False
    using n by simp
qed

lemma validate_makedirs_unchanged:
  assumes "wf_fs fs" "canonical p" "makedirs env fs (dirname p) = (r, fs1)"
    and "fs1 p \<noteq> None"
  shows "fs1 = fs"
proof -
  have td: "canonical (dirname p)"
    using assms(2) by (rule canonical_dirname)
  have c: "created fs fs1 (dirname p)"
    using td assms(3) by (rule makedirs_created)
  have e: "fs p \<noteq> None"
    using created_not_child [OF c] assms(4) by blast
  then have "dirname p = p \<or> fs (dirname p) = Some Dir"
    using assms(1) unfolding wf_fs_def by blast
  then have "fs (dirname p) \<noteq> None"
    using e by auto
  then show ?thesis
    using makedirs_existing [OF assms(1) td _ assms(3)] by blast
qed

lemma validate_unchanged:
  assumes "isabs (cwd env)" "wf_fs fs"
    and "validate env input_files output_path overwrite fs = (Inl e, fs1)"
  shows "fs1 = fs"
proof -
  let ?out = "abspath (cwd env) output_path"
  have a: "isabs ?out" and n: "nodot ?out"
    using abspath_abs [OF assms(1)] by simp_all
  have co: "canonical ?out"
    using assms(1) by (rule canonical_abspath)
  have d: "dirname ?out \<noteq> []"
    using isabs_dirname [OF a] isabs_nonempty by blast
  obtain r fsm where m: "makedirs env fs (dirname ?out) = (r, fsm)"
    by (cases "makedirs env fs (dirname ?out)")
  have fail: "fsm = fs" if "r = Inl e'" for e'
    using makedirs_failure [OF assms(2) canonical_dirname [OF co]] m that by blast
  have ex: "fsm = fs" if "fsm ?out \<noteq> None"
    using validate_makedirs_unchanged [OF assms(2) co m that] .
  have look: "lookup env fsm ?out = fsm ?out"
    using co by (rule lookup_abs)
  have dir: "fsm = fs" if "isdir env fsm ?out"
    using that ex look by (simp add: isdir_def)
  have exi: "fsm = fs" if "path_exists env fsm ?out"
    using that ex look by (simp add: path_exists_def)
  show ?thesis
    using assms(3) d m fail dir exi
    unfolding validate_def Let_def
    by (auto split: if_splits option.splits sum.splits)
qed

text \<open>
  C3. When one of the checks before the temporary directory fails (no input left after the
  blank entries are dropped, an input that is not a file, an output path that is a
  directory, an output that exists while \<open>overwrite\<close> is false, and also a missing backend
  or an output directory that cannot be made), \<open>merge_pdfs\<close> raises that exception and the
  file system is what it was before the call: nothing was created and nothing was changed.
  The file system is one where every entry but a root lies in a directory, and the
  current directory is an absolute path. \<open>os.makedirs\<close> runs before the last two checks,
  yet these can only fail when the output's directory is already there.
\<close>

theorem validation_failure_no_side_effect:
  assumes "isabs (cwd env)" "wf_fs fs"
    and "validate env input_files output_path overwrite fs = (Inl e, fs1)"
  shows "merge_pdfs env input_files output_path overwrite fs = (Inl e, fs)"
  using validate_unchanged [OF assms] assms(3) by (simp add: merge_pdfs_def)

lemma wf_entries_fs: "wf_entries es \<Longrightarrow> wf_fs (map_of es)"
proof -
  assume a: "wf_entries es"
  show ?thesis
    unfolding wf_fs_def
  proof (intro allI impI)
    fix k
    assume "map_of es k \<noteq> None"
    then obtain n where "(k, n) \<in> set es"
      by (auto dest: map_of_SomeD)
    then show "isabs k \<and> (dirname k = k \<or> map_of es (dirname k) = Some Dir)"
      using a unfolding wf_entries_def list_all_iff by auto
  qed
qed

lemma wf_fs0: "wf_fs fs0"
  unfolding fs0_def
proof (rule wf_entries_fs)
  show "wf_entries fs0_entries"
    by code_simp
qed

lemma isabs_cwd0: "isabs (cwd env0)"
  by code_simp

theorem validation_failure_no_side_effect_witness:
  "merge_pdfs env0 [''a.pdf''] ''old.pdf'' False fs0
     = (Inl (FileExistsError ''Output file already exists: /home/u/old.pdf''), fs0)
   \<and> merge_pdfs env0 [''a.pdf''] ''/home/u'' True fs0
     = (Inl (ValueError ''Output path points to a directory, not a file.''), fs0)
   \<and> merge_pdfs env0 [''a.pdf'', ''missing.pdf''] ''new/out.pdf'' False fs0
     = (Inl (ValueError ''Input file not found: missing.pdf''), fs0)
   \<and> merge_pdfs env0 ['' ''] ''new/out.pdf'' False fs0
     = (Inl (ValueError ''No input PDF files provided.''), fs0)"
proof -
  have 1: "fst (validate env0 [''a.pdf''] ''old.pdf'' False fs0)
             = Inl (FileExistsError ''Output file already exists: /home/u/old.pdf'')"
    by code_simp
  have 2: "fst (validate env0 [''a.pdf''] ''/home/u'' True fs0)
             = Inl (ValueError ''Output path points to a directory, not a file.'')"
    by code_simp
  have 3: "fst (validate env0 [''a.pdf'', ''missing.pdf''] ''new/out.pdf'' False fs0)
             = Inl (ValueError ''Input file not found: missing.pdf'')"
    by code_simp
  have 4: "fst (validate env0 ['' ''] ''new/out.pdf'' False fs0)
             = Inl (ValueError ''No input PDF files provided.'')"
    by code_simp
  note th = validation_failure_no_side_effect [OF isabs_cwd0 wf_fs0]
  show ?thesis
    using th [OF fst_eq_pair [OF 1]] th [OF fst_eq_pair [OF 2]] th [OF fst_eq_pair [OF 3]]
      th [OF fst_eq_pair [OF 4]]
    by simp
qed

section \<open>What a call changes\<close>

lemma open_wb_Inr: "open_wb env fs p = Inr fs' \<Longrightarrow> fs' = fs(os_path env p \<mapsto> File (Blob []))"
  by (auto simp: open_wb_def split: if_splits option.splits)

lemma write_img2pdf_frame:
  "write_img2pdf env fs out p kw = (r, fs') \<Longrightarrow> k \<noteq> os_path env out \<Longrightarrow> fs' k = fs k"
  by (auto simp: write_img2pdf_def put_def dest!: open_wb_Inr split: sum.splits)

lemma save_pdf_frame:
  "save_pdf env fs out ps = (r, fs') \<Longrightarrow> k \<noteq> os_path env out \<Longrightarrow> fs' k = fs k"
  by (auto simp: save_pdf_def put_def dest!: open_wb_Inr split: sum.splits)

lemma pillow_fix_frame:
  "pillow_fix env fs img fixed = (r, fs') \<Longrightarrow> k \<noteq> os_path env fixed \<Longrightarrow> fs' k = fs k"
  by (auto simp: pillow_fix_def put_def dest!: open_wb_Inr split: sum.splits)

lemma fallback_frame:
  assumes "fallback env fs img out tmp = (r, fs')" "k \<noteq> os_path env out"
    "k \<noteq> os_path env (join tmp (''fixed_'' @ path_stem img @ ''.png''))"
  shows "fs' k = fs k"
proof -
  let ?fixed = "join tmp (''fixed_'' @ path_stem img @ ''.png'')"
  obtain r1 fs1 where p: "pillow_fix env fs img ?fixed = (r1, fs1)"
    by (cases "pillow_fix env fs img ?fixed")
  have 1: "fs1 k = fs k"
    using pillow_fix_frame [OF p assms(3)] .
  obtain r2 fs2 where w: "write_img2pdf env fs1 out ?fixed
      \<lparr>auto_orient = Some False, rotation = None\<rparr> = (r2, fs2)"
    by (cases "write_img2pdf env fs1 out ?fixed \<lparr>auto_orient = Some False, rotation = None\<rparr>")
  have 2: "fs2 k = fs1 k"
    using write_img2pdf_frame [OF w assms(2)] .
  have l: "fs'' k = fsx k" if "last_resort env fsx img out = (rr, fs'')" for rr fs'' fsx
    using that write_img2pdf_frame assms(2) unfolding last_resort_def by blast
  show ?thesis
    using assms(1) p w 1 2 unfolding fallback_def Let_def
    by (auto split: sum.splits dest!: l)
qed

lemma image_to_pdf_frame:
  assumes "image_to_pdf env img out tmp fs = (r, fs')" "k \<noteq> os_path env out"
    "k \<noteq> os_path env (join tmp (''fixed_'' @ path_stem img @ ''.png''))"
  shows "fs' k = fs k"
proof -
  obtain r1 fs1 where w: "write_img2pdf env fs out img (first_kwargs env) = (r1, fs1)"
    by (cases "write_img2pdf env fs out img (first_kwargs env)")
  have 1: "fs1 k = fs k"
    using write_img2pdf_frame [OF w assms(2)] .
  have f: "fs' k = fs1 k" if "fallback env fs1 img out tmp = (r, fs')"
    using fallback_frame [OF that assms(2,3)] .
  show ?thesis
    using assms(1) w 1 f unfolding image_to_pdf_def
    by (auto split: sum.splits if_splits)
qed

lemma text_to_pdf_frame:
  "text_to_pdf env p out fs = (r, fs') \<Longrightarrow> k \<noteq> os_path env out \<Longrightarrow> fs' k = fs k"
  unfolding text_to_pdf_def
  by (auto dest: save_pdf_frame split: sum.splits)

lemma docx_to_pdf_frame:
  "docx_to_pdf env p out fs = (r, fs') \<Longrightarrow> k \<noteq> os_path env out \<Longrightarrow> fs' k = fs k"
  unfolding docx_to_pdf_def
  by (auto dest: save_pdf_frame split: sum.splits)

lemma returning_snd: "returning out x = (r, fs') \<Longrightarrow> snd x = fs'"
  by (auto simp: returning_def split: prod.splits sum.splits)

lemma join_in_tree:
  assumes "canonical T" "\<not> is_sep (last T)" "plain n" "\<forall>ch\<in>set n. \<not> is_sep ch"
  shows "in_tree T (os_path env (join T n))"
proof -
  have j: "join T n = T @ ''/'' @ n"
    using assms by (rule canonical_join(1))
  have "canonical (join T n)"
    using assms by (rule canonical_join(2))
  then have "os_path env (join T n) = join T n"
    by (rule os_path_abs)
  then show ?thesis
    unfolding j by (simp add: in_tree_def)
qed

lemma tagged_plain:
  "plain (''img_'' @ s)" "plain (''txt_'' @ s)" "plain (''docx_'' @ s)" "plain (''fixed_'' @ s)"
  by (simp_all add: plain_def)

lemma tagged_nosep:
  assumes "\<forall>ch\<in>set s. \<not> is_sep ch"
  shows "\<forall>ch\<in>set (''img_'' @ s). \<not> is_sep ch" "\<forall>ch\<in>set (''txt_'' @ s). \<not> is_sep ch"
    "\<forall>ch\<in>set (''docx_'' @ s). \<not> is_sep ch" "\<forall>ch\<in>set (''fixed_'' @ s). \<not> is_sep ch"
  using assms by (simp_all add: is_sep_def)

lemma stem_ext_nosep:
  "\<forall>ch\<in>set (path_stem p @ ''.pdf''). \<not> is_sep ch"
  "\<forall>ch\<in>set (path_stem p @ ''.png''). \<not> is_sep ch"
  using path_stem_nosep [of _ p] by (auto simp: is_sep_def)

lemma not_isabs_tagged:
  "\<not> isabs (''img_'' @ s)" "\<not> isabs (''txt_'' @ s)" "\<not> isabs (''docx_'' @ s)"
  "\<not> isabs (''fixed_'' @ s)"
  by (simp_all add: isabs_def is_sep_def)

lemma convert_to_pdf_frame:
  assumes "convert_to_pdf env f (Some T) fs = (r, fs')" "canonical T" "\<not> is_sep (last T)"
    "\<not> in_tree T k"
  shows "fs' k = fs k"
proof -
  let ?in = "abspath (cwd env) f"
  have k: "k \<noteq> os_path env (join T n)" if "plain n" "\<forall>ch\<in>set n. \<not> is_sep ch" for n
    using join_in_tree [OF assms(2,3) that, of env] assms(4) by auto
  have ki: "k \<noteq> os_path env (join T (''img_'' @ path_stem ?in @ ''.pdf''))"
    by (rule k) (rule tagged_plain, rule tagged_nosep, rule stem_ext_nosep)
  have kt: "k \<noteq> os_path env (join T (''txt_'' @ path_stem ?in @ ''.pdf''))"
    by (rule k) (rule tagged_plain, rule tagged_nosep, rule stem_ext_nosep)
  have kd: "k \<noteq> os_path env (join T (''docx_'' @ path_stem ?in @ ''.pdf''))"
    by (rule k) (rule tagged_plain, rule tagged_nosep, rule stem_ext_nosep)
  have kf: "k \<noteq> os_path env (join T (''fixed_'' @ path_stem ?in @ ''.png''))"
    by (rule k) (rule tagged_plain, rule tagged_nosep, rule stem_ext_nosep)
  have i: "fs' k = fs k"
    if "image_to_pdf env ?in (join T (''img_'' @ path_stem ?in @ ''.pdf'')) T fs = (rr, fs')" for rr
    by (rule image_to_pdf_frame [OF that ki kf])
  have t: "fs' k = fs k"
    if "text_to_pdf env ?in (join T (''txt_'' @ path_stem ?in @ ''.pdf'')) fs = (rr, fs')" for rr
    by (rule text_to_pdf_frame [OF that kt])
  have d: "fs' k = fs k"
    if "docx_to_pdf env ?in (join T (''docx_'' @ path_stem ?in @ ''.pdf'')) fs = (rr, fs')" for rr
    by (rule docx_to_pdf_frame [OF that kd])
  have i': "fs' k = fs k"
    if "snd (image_to_pdf env ?in (join T (''img_'' @ path_stem ?in @ ''.pdf'')) T fs) = fs'"
    using that i by (metis prod.collapse)
  have t': "fs' k = fs k"
    if "snd (text_to_pdf env ?in (join T (''txt_'' @ path_stem ?in @ ''.pdf'')) fs) = fs'"
    using that t by (metis prod.collapse)
  have d': "fs' k = fs k"
    if "snd (docx_to_pdf env ?in (join T (''docx_'' @ path_stem ?in @ ''.pdf'')) fs) = fs'"
    using that d by (metis prod.collapse)
  show ?thesis
    using assms(1) i' t' d' unfolding convert_to_pdf_def Let_def
    by (auto split: if_splits dest!: returning_snd)
qed

lemma convert_inputs_frame:
  assumes "canonical T" "\<not> is_sep (last T)" "\<not> in_tree T k"
  shows "convert_inputs env T files acc fs = (r, fs') \<Longrightarrow> fs' k = fs k"
proof (induction files arbitrary: acc fs)
  case Nil
  then show ?case by simp
next
  case (Cons f files)
  show ?case
  proof (cases "py_lower (path_suffix f) = ''.pdf''")
    case True
    then show ?thesis
      using Cons by simp
  next
    case False
    show ?thesis
    proof (cases "is_supported_nonpdf env f")
      case no: False
      then show ?thesis
        using Cons.prems False by simp
    next
      case True
      obtain r1 fs1 where c: "convert_to_pdf env f (Some T) fs = (r1, fs1)"
        by (cases "convert_to_pdf env f (Some T) fs")
      have 1: "fs1 k = fs k"
        using convert_to_pdf_frame [OF c assms] .
      show ?thesis
      proof (cases r1)
        case (Inl e)
        then show ?thesis
          using Cons.prems False True c 1 by simp
      next
        case (Inr out)
        then have "convert_inputs env T files (acc @ [out]) fs1 = (r, fs')"
          using Cons.prems False True c by simp
        then show ?thesis
          using Cons.IH 1 by metis
      qed
    qed
  qed
qed

lemma merge_body_frame:
  assumes "canonical T" "\<not> is_sep (last T)" "\<not> in_tree T k"
    and "merge_body env files out T fs = (r, fs')"
    and "k \<noteq> os_path env (final_out_path out) \<or> (\<exists>e. r = Inl e)"
  shows "fs' k = fs k"
proof -
  obtain r1 fs1 where c: "convert_inputs env T files [] fs = (r1, fs1)"
    by (cases "convert_inputs env T files [] fs")
  have 1: "fs1 k = fs k"
    using convert_inputs_frame [OF assms(1-3) c] .
  show ?thesis
    using assms(4,5) c 1 unfolding merge_body_def
    by (auto simp: put_def dest!: open_wb_Inr split: sum.splits)
qed

lemma merge_body_Inr:
  "merge_body env files out T fs = (Inr p, fs') \<Longrightarrow> p = final_out_path out"
  unfolding merge_body_def by (auto split: sum.splits prod.splits)

lemma in_tree_trans: "in_tree a b \<Longrightarrow> in_tree b c \<Longrightarrow> in_tree a c"
proof -
  assume ab: "in_tree a b" and bc: "in_tree b c"
  show ?thesis
  proof (cases "b = c")
    case True
    then show ?thesis using ab by simp
  next
    case False
    then have p: "prefix (b @ ''/'') c"
      using bc by (simp add: in_tree_def)
    show ?thesis
      using ab p by (rule in_tree_prefix)
  qed
qed

lemma validate_Inr:
  assumes "isabs (cwd env)"
    and "validate env input_files output_path overwrite fs = (Inr (files, out), fs1)"
  shows "out = abspath (cwd env) output_path"
    and "files = filter (\<lambda>p. str_strip p \<noteq> []) input_files"
    and "\<exists>u. makedirs env fs (dirname out) = (Inr u, fs1)"
    and "has_backend env" and "files \<noteq> []"
    and "find (\<lambda>f. \<not> isfile env fs f) files = None"
    and "\<not> isdir env fs1 out" and "path_exists env fs1 out \<longrightarrow> overwrite"
proof -
  have d: "dirname (abspath (cwd env) output_path) \<noteq> []"
    using isabs_dirname [of "abspath (cwd env) output_path"] abspath_abs [OF assms(1)]
      isabs_nonempty by blast
  have "out = abspath (cwd env) output_path
    \<and> files = filter (\<lambda>p. str_strip p \<noteq> []) input_files
    \<and> (\<exists>u. makedirs env fs (dirname out) = (Inr u, fs1))
    \<and> has_backend env \<and> files \<noteq> []
    \<and> find (\<lambda>f. \<not> isfile env fs f) files = None
    \<and> \<not> isdir env fs1 out \<and> (path_exists env fs1 out \<longrightarrow> overwrite)"
    using assms(2) d unfolding validate_def Let_def
    by (auto split: if_splits option.splits sum.splits prod.splits)
  then show "out = abspath (cwd env) output_path"
    and "files = filter (\<lambda>p. str_strip p \<noteq> []) input_files"
    and "\<exists>u. makedirs env fs (dirname out) = (Inr u, fs1)"
    and "has_backend env" and "files \<noteq> []"
    and "find (\<lambda>f. \<not> isfile env fs f) files = None"
    and "\<not> isdir env fs1 out" and "path_exists env fs1 out \<longrightarrow> overwrite"
    by blast+
qed

lemma TemporaryDirectory_cases:
  assumes "canonical (tmp_name env)" "TemporaryDirectory env fs = (r, fs')"
  shows "((\<exists>e. r = Inl e) \<and> fs' = fs)
       \<or> (r = Inr (tmp_name env) \<and> fs (tmp_name env) = None
          \<and> fs (dirname (tmp_name env)) = Some Dir \<and> fs' = fs(tmp_name env \<mapsto> Dir))"
proof (cases "mkdir env fs (tmp_name env)")
  case (Inl e)
  then show ?thesis
    using assms(2) by (auto simp: TemporaryDirectory_def)
next
  case (Inr f)
  then show ?thesis
    using assms(2) mkdir_Inr [OF assms(1) Inr] by (auto simp: TemporaryDirectory_def)
qed

lemma final_out_path_cases:
  "final_out_path p = p \<or> final_out_path p = p @ ''.pdf''"
  unfolding final_out_path_def using splitext_no_ext [of p] by auto

lemma isabs_final_out_path: "isabs p \<Longrightarrow> isabs (final_out_path p)"
  using final_out_path_cases [of p] by (auto simp: isabs_Cons)

lemma canonical_final_out_path: "canonical p \<Longrightarrow> canonical (final_out_path p)"
  using final_out_path_cases [of p] canonical_append_pdf [of p] by auto

lemma merge_pdfs_cases:
  assumes "merge_pdfs env input_files output_path overwrite fs = (r, fs')"
  shows "(\<exists>e. validate env input_files output_path overwrite fs = (Inl e, fs') \<and> r = Inl e)
       \<or> (\<exists>files out e. validate env input_files output_path overwrite fs
                           = (Inr (files, out), fs')
             \<and> import_convert env = Inl e \<and> r = Inl e)
       \<or> (\<exists>files out fs1 e.
             validate env input_files output_path overwrite fs = (Inr (files, out), fs1)
             \<and> import_convert env = Inr ()
             \<and> TemporaryDirectory env fs1 = (Inl e, fs') \<and> r = Inl e)
       \<or> (\<exists>files out fs1 T fs2 rb fs3.
             validate env input_files output_path overwrite fs = (Inr (files, out), fs1)
             \<and> import_convert env = Inr ()
             \<and> TemporaryDirectory env fs1 = (Inr T, fs2)
             \<and> merge_body env files out T fs2 = (rb, fs3)
             \<and> fs' = cleanup env fs3 T
             \<and> ((\<exists>e. rb = Inl e \<and> r = Inl (reraise e)) \<or> (\<exists>q. rb = Inr q \<and> r = Inr q)))"
proof -
  obtain rv fs1 where v: "validate env input_files output_path overwrite fs = (rv, fs1)"
    by (cases "validate env input_files output_path overwrite fs")
  show ?thesis
  proof (cases rv)
    case (Inl e)
    then show ?thesis
      using assms v by (simp add: merge_pdfs_def)
  next
    case (Inr fo)
    obtain files out where fo: "fo = (files, out)"
      by (cases fo)
    show ?thesis
    proof (cases "import_convert env")
      case (Inl e)
      then show ?thesis
        using assms v Inr fo by (simp add: merge_pdfs_def)
    next
      case im: (Inr u)
      obtain rt fs2 where td: "TemporaryDirectory env fs1 = (rt, fs2)"
        by (cases "TemporaryDirectory env fs1")
      show ?thesis
      proof (cases rt)
        case tl: (Inl e)
        show ?thesis
          using assms v Inr fo im td tl by (auto simp: merge_pdfs_def)
      next
        case T: (Inr T)
        obtain rb fs3 where b: "merge_body env files out T fs2 = (rb, fs3)"
          by (cases "merge_body env files out T fs2")
        show ?thesis
          using assms v Inr fo im td T b by (cases rb) (auto simp: merge_pdfs_def)
      qed
    qed
  qed
qed

lemma merge_pdfs_effect:
  assumes "isabs (cwd env)" "wf_fs fs" "tmp_fresh env fs"
    and "\<not> in_tree (tmp_name env) (dirname (abspath (cwd env) output_path))"
    and "merge_pdfs env input_files output_path overwrite fs = (r, fs')"
  shows "in_tree (tmp_name env) p \<longrightarrow> fs' p = None"
    and "fs' p = fs p
         \<or> (fs p = None \<and> fs' p = Some Dir \<and> in_tree p (dirname (abspath (cwd env) output_path)))
         \<or> (r = Inr (final_out_path (abspath (cwd env) output_path))
            \<and> p = final_out_path (abspath (cwd env) output_path))"
proof -
  let ?T = "tmp_name env"
  let ?out = "abspath (cwd env) output_path"
  have T: "canonical ?T" "\<not> is_sep (last ?T)"
    and fresh: "\<And>q. in_tree ?T q \<Longrightarrow> fs q = None"
    using assms(3) by (simp_all add: tmp_fresh_def)
  obtain rv fs1 where v: "validate env input_files output_path overwrite fs = (rv, fs1)"
    by (cases "validate env input_files output_path overwrite fs")
  have goal: "(in_tree ?T p \<longrightarrow> fs' p = None)
    \<and> (fs' p = fs p
         \<or> (fs p = None \<and> fs' p = Some Dir \<and> in_tree p (dirname ?out))
         \<or> (r = Inr (final_out_path ?out) \<and> p = final_out_path ?out))"
  proof (cases rv)
    case (Inl e)
    then have "fs' = fs"
      using validation_failure_no_side_effect [OF assms(1,2)] v assms(5) by simp
    then show ?thesis
      using fresh by simp
  next
    case (Inr fo)
    obtain files out where fo: "fo = (files, out)"
      by (cases fo)
    have vv: "validate env input_files output_path overwrite fs = (Inr (files, out), fs1)"
      using v Inr fo by simp
    have out: "out = ?out"
      using validate_Inr(1) [OF assms(1) vv] .
    obtain u where mk: "makedirs env fs (dirname ?out) = (Inr u, fs1)"
      using validate_Inr(3) [OF assms(1) vv] out by blast
    have ao: "canonical ?out"
      using assms(1) by (rule canonical_abspath)
    have c: "created fs fs1 (dirname ?out)"
      using canonical_dirname [OF ao] mk by (rule makedirs_created)
    have c1: "fs1 q = fs q \<or> (fs q = None \<and> fs1 q = Some Dir \<and> in_tree q (dirname ?out))" for q
      using c unfolding created_def by blast
    have t1: "fs1 q = None" if "in_tree ?T q" for q
      using c1 [of q] fresh [OF that] in_tree_trans [OF that] assms(4) by auto
    obtain rt fs2 where td: "TemporaryDirectory env fs1 = (rt, fs2)"
      by (cases "TemporaryDirectory env fs1")
    show ?thesis
    proof (cases "import_convert env")
      case (Inl e)
      then have "fs' = fs1"
        using assms(5) vv by (simp add: merge_pdfs_def)
      then show ?thesis
        using c1 [of p] t1 [of p] by auto
    next
    case im: (Inr im)
    show ?thesis
    proof (cases rt)
      case (Inl e)
      then have "fs2 = fs1"
        using TemporaryDirectory_cases [OF T(1) td] by auto
      moreover have "fs' = fs2"
        using assms(5) vv im td Inl by (simp add: merge_pdfs_def)
      ultimately have "fs' = fs1"
        by simp
      then show ?thesis
        using c1 [of p] t1 [of p] by auto
    next
      case tmp: (Inr tmpdir)
      have tmpdir: "tmpdir = ?T" and fs2: "fs2 = fs1(?T \<mapsto> Dir)"
        using TemporaryDirectory_cases [OF T(1) td] tmp by auto
      obtain rb fs3 where b: "merge_body env files ?out ?T fs2 = (rb, fs3)"
        by (cases "merge_body env files ?out ?T fs2")
      have res: "fs' = rmtree fs3 ?T"
        and r: "(\<exists>e. rb = Inl e \<and> r = Inl (reraise e)) \<or> (\<exists>q. rb = Inr q \<and> r = Inr q)"
        using assms(5) vv im td tmp tmpdir b out
        by (auto simp: merge_pdfs_def cleanup_def os_path_abs [OF T(1)] split: sum.splits)
      have fin: "os_path env (final_out_path ?out) = final_out_path ?out"
        using canonical_final_out_path [OF ao] by (rule os_path_abs)
      show ?thesis
      proof (cases "in_tree ?T p")
        case True
        then show ?thesis
          using res fresh [OF True] by (simp add: rmtree_def)
      next
        case False
        then have pT: "p \<noteq> ?T"
          by (auto simp: in_tree_def)
        have e: "fs' p = fs3 p"
          using res False by (simp add: rmtree_def)
        show ?thesis
        proof (cases "p = final_out_path ?out \<and> (\<exists>q. rb = Inr q)")
          case True
          then obtain q where "rb = Inr q" by blast
          then have "r = Inr (final_out_path ?out)"
            using r merge_body_Inr [of env files ?out ?T fs2 q fs3] b by auto
          then show ?thesis
            using True False by simp
        next
          case nf: False
          have "p \<noteq> os_path env (final_out_path ?out) \<or> (\<exists>e. rb = Inl e)"
            using nf fin by (cases rb) auto
          then have "fs3 p = fs2 p"
            using merge_body_frame [OF T False b] by blast
          then have "fs' p = fs1 p"
            using e fs2 pT by simp
          then show ?thesis
            using c1 [of p] False by auto
        qed
      qed
    qed
    qed
  qed
  show "in_tree (tmp_name env) p \<longrightarrow> fs' p = None"
    using goal by blast
  show "fs' p = fs p
         \<or> (fs p = None \<and> fs' p = Some Dir \<and> in_tree p (dirname (abspath (cwd env) output_path)))
         \<or> (r = Inr (final_out_path (abspath (cwd env) output_path))
            \<and> p = final_out_path (abspath (cwd env) output_path))"
    using goal by blast
qed

section \<open>The temporary directory and unsupported inputs\<close>

lemma fresh_entries_fs:
  "fresh_entries d es \<Longrightarrow> in_tree d p \<Longrightarrow> map_of es p = None"
proof (rule ccontr)
  assume a: "fresh_entries d es" and t: "in_tree d p" and "map_of es p \<noteq> None"
  then obtain n where "(p, n) \<in> set es"
    by (auto dest: map_of_SomeD)
  then show False
    using a t unfolding fresh_entries_def list_all_iff by auto
qed

lemma tmp_fresh0: "tmp_fresh env0 fs0"
proof -
  have 1: "isabs (tmp_name env0) \<and> canonical (tmp_name env0)
           \<and> \<not> is_sep (last (tmp_name env0))"
    by code_simp
  have 2: "fresh_entries (tmp_name env0) fs0_entries"
    by code_simp
  show ?thesis
    unfolding tmp_fresh_def fs0_def using 1 fresh_entries_fs [OF 2] by blast
qed

text \<open>
  C4. Whatever the call does (it returns, a check fails, a conversion fails, or the output
  cannot be written), afterwards nothing exists at or below the temporary directory of the
  call, and every path whose entry differs from before the call is either a directory
  made on the way to the output or, when the call returns, the output file itself: no
  temporary file survives anywhere. The temporary directory is the one \<open>mkdtemp\<close>
  chooses: new, and not a directory the output lies in. Removing the directory tree is
  taken to succeed.
\<close>

theorem temporary_directory_removed:
  assumes "isabs (cwd env)" "wf_fs fs" "tmp_fresh env fs"
    and "\<not> in_tree (tmp_name env) (dirname (abspath (cwd env) output_path))"
  shows "(\<forall>p. in_tree (tmp_name env) p \<longrightarrow>
            snd (merge_pdfs env input_files output_path overwrite fs) p = None)
       \<and> (\<forall>p. snd (merge_pdfs env input_files output_path overwrite fs) p \<noteq> fs p \<longrightarrow>
            (fs p = None \<and> snd (merge_pdfs env input_files output_path overwrite fs) p = Some Dir
             \<and> in_tree p (dirname (abspath (cwd env) output_path)))
            \<or> (fst (merge_pdfs env input_files output_path overwrite fs) = Inr p
               \<and> p = final_out_path (abspath (cwd env) output_path)))"
proof -
  obtain r fs' where m: "merge_pdfs env input_files output_path overwrite fs = (r, fs')"
    by (cases "merge_pdfs env input_files output_path overwrite fs")
  show ?thesis
    unfolding m using merge_pdfs_effect [OF assms m] by auto
qed

theorem temporary_directory_removed_witness:
  "snd (merge_pdfs env0 [''a.pdf'', ''n.txt'', ''i.png''] ''d/e/out.x'' False fs0)
      ''/tmp/tmpab12/fixed_i.png'' = None
   \<and> snd (merge_pdfs env0 [''a.pdf'', ''n.txt'', ''i.png''] ''d/e/out.x'' False fs0)
      ''/tmp/tmpab12'' = None
   \<and> snd (merge_pdfs env0 [''n.txt'', ''bad.png''] ''out.pdf'' False fs0)
      ''/tmp/tmpab12/txt_n.pdf'' = None
   \<and> snd (merge_pdfs env0 [''n.txt''] ''dir'' False fs0) ''/tmp/tmpab12/txt_n.pdf'' = None
   \<and> snd (merge_pdfs env0 [''n.txt''] ''old.pdf'' False fs0) ''/tmp/tmpab12'' = None"
proof -
  have 1: "\<not> in_tree (tmp_name env0) (dirname (abspath (cwd env0) ''d/e/out.x''))"
    by code_simp
  have 2: "\<not> in_tree (tmp_name env0) (dirname (abspath (cwd env0) ''out.pdf''))"
    by code_simp
  have 3: "\<not> in_tree (tmp_name env0) (dirname (abspath (cwd env0) ''dir''))"
    by code_simp
  have 4: "\<not> in_tree (tmp_name env0) (dirname (abspath (cwd env0) ''old.pdf''))"
    by code_simp
  have a: "in_tree (tmp_name env0) ''/tmp/tmpab12/fixed_i.png''"
    by code_simp
  have b: "in_tree (tmp_name env0) ''/tmp/tmpab12''"
    by code_simp
  have c: "in_tree (tmp_name env0) ''/tmp/tmpab12/txt_n.pdf''"
    by code_simp
  note th = temporary_directory_removed [OF isabs_cwd0 wf_fs0 tmp_fresh0, THEN conjunct1, rule_format]
  show ?thesis
    using th [OF 1 a] th [OF 1 b] th [OF 2 c] th [OF 3 c] th [OF 4 b] by simp
qed

lemma convert_inputs_unsupported:
  assumes "f \<in> set files" "py_lower (path_suffix f) \<noteq> ''.pdf''" "\<not> is_supported_nonpdf env f"
  shows "\<exists>e. fst (convert_inputs env T files acc fs) = Inl e"
  using assms(1)
proof (induction files arbitrary: acc fs)
  case Nil
  then show ?case by simp
next
  case (Cons g files)
  show ?case
  proof (cases "g = f")
    case True
    then show ?thesis
      using assms(2,3) by simp
  next
    case False
    then have "f \<in> set files"
      using Cons.prems by simp
    then have IH: "\<exists>e. fst (convert_inputs env T files acc' fs') = Inl e" for acc' fs'
      using Cons.IH by blast
    obtain r1 fs1 where c: "convert_to_pdf env g (Some T) fs = (r1, fs1)"
      by (cases "convert_to_pdf env g (Some T) fs")
    show ?thesis
      using IH c by (cases r1) auto
  qed
qed

lemma merge_pdfs_unsupported:
  assumes "f \<in> set input_files" "str_strip f \<noteq> []"
    "py_lower (path_suffix f) \<noteq> ''.pdf''" "\<not> is_supported_nonpdf env f"
  shows "\<exists>e. fst (merge_pdfs env input_files output_path overwrite fs) = Inl e"
proof -
  obtain r fs' where m: "merge_pdfs env input_files output_path overwrite fs = (r, fs')"
    by (cases "merge_pdfs env input_files output_path overwrite fs")
  have "\<not> (\<exists>q. r = Inr q)"
  proof
    assume "\<exists>q. r = Inr q"
    then obtain files out fs1 T fs2 q fs3
      where v: "validate env input_files output_path overwrite fs = (Inr (files, out), fs1)"
        and b: "merge_body env files out T fs2 = (Inr q, fs3)"
      using merge_pdfs_cases [OF m] by auto
    have "files = filter (\<lambda>p. str_strip p \<noteq> []) input_files"
      using v unfolding validate_def Let_def
      by (auto split: if_splits option.splits sum.splits prod.splits)
    then have f: "f \<in> set files"
      using assms(1,2) by simp
    obtain e where "fst (convert_inputs env T files [] fs2) = Inl e"
      using convert_inputs_unsupported [OF f assms(3,4)] by blast
    then have "\<exists>e fs3. merge_body env files out T fs2 = (Inl e, fs3)"
      unfolding merge_body_def
      by (cases "convert_inputs env T files [] fs2") auto
    then show False
      using b by simp
  qed
  then show ?thesis
    unfolding m by (cases r) simp_all
qed

text \<open>
  C6. \<open>convert_to_pdf\<close> on an existing file whose extension, in lower case, is not an
  image, text or word-processor extension raises ValueError with the message
  \<open>Unsupported file type for conversion:\<close> followed by that extension, and changes
  nothing. A merge whose inputs, after the blank entries are dropped, contain a file with
  an extension that is neither \<open>.pdf\<close> nor one of those always raises; and then no file
  was written or changed: every entry is as before the call, but for directories made on
  the way to the output.
\<close>

theorem unsupported_extension_rejected:
  "(isfile env fs (abspath (cwd env) input_path)
      \<and> py_lower (path_suffix (abspath (cwd env) input_path))
            \<notin> set IMAGE_EXTS \<union> set TEXT_EXTS \<union> set DOCX_EXTS
      \<longrightarrow> convert_to_pdf env input_path tmp_dir fs
            = (Inl (ValueError (''Unsupported file type for conversion: ''
                       @ py_lower (path_suffix (abspath (cwd env) input_path)))), fs))
   \<and> (f \<in> set input_files \<and> str_strip f \<noteq> [] \<and> py_lower (path_suffix f) \<noteq> ''.pdf''
        \<and> py_lower (path_suffix f) \<notin> set IMAGE_EXTS \<union> set TEXT_EXTS \<union> set DOCX_EXTS
      \<longrightarrow> (\<exists>e. fst (merge_pdfs env input_files output_path overwrite fs) = Inl e)
          \<and> (isabs (cwd env) \<and> wf_fs fs \<and> tmp_fresh env fs
               \<and> \<not> in_tree (tmp_name env) (dirname (abspath (cwd env) output_path))
              \<longrightarrow> (\<forall>p. snd (merge_pdfs env input_files output_path overwrite fs) p = fs p
                       \<or> (fs p = None
                          \<and> snd (merge_pdfs env input_files output_path overwrite fs) p
                              = Some Dir))))"
proof (intro conjI impI)
  assume "isfile env fs (abspath (cwd env) input_path)
      \<and> py_lower (path_suffix (abspath (cwd env) input_path))
            \<notin> set IMAGE_EXTS \<union> set TEXT_EXTS \<union> set DOCX_EXTS"
  then show "convert_to_pdf env input_path tmp_dir fs
            = (Inl (ValueError (''Unsupported file type for conversion: ''
                       @ py_lower (path_suffix (abspath (cwd env) input_path)))), fs)"
    unfolding convert_to_pdf_def Let_def by simp
next
  assume a: "f \<in> set input_files \<and> str_strip f \<noteq> [] \<and> py_lower (path_suffix f) \<noteq> ''.pdf''
        \<and> py_lower (path_suffix f) \<notin> set IMAGE_EXTS \<union> set TEXT_EXTS \<union> set DOCX_EXTS"
  then have n: "\<not> is_supported_nonpdf env f"
    by (simp add: is_supported_nonpdf_def Let_def)
  show e: "\<exists>e. fst (merge_pdfs env input_files output_path overwrite fs) = Inl e"
    using merge_pdfs_unsupported [of f input_files env] a n by blast
  assume h: "isabs (cwd env) \<and> wf_fs fs \<and> tmp_fresh env fs
     \<and> \<not> in_tree (tmp_name env) (dirname (abspath (cwd env) output_path))"
  obtain r fs' where m: "merge_pdfs env input_files output_path overwrite fs = (r, fs')"
    by (cases "merge_pdfs env input_files output_path overwrite fs")
  have "\<exists>x. r = Inl x"
    using e m by simp
  then show "\<forall>p. snd (merge_pdfs env input_files output_path overwrite fs) p = fs p
       \<or> (fs p = None \<and> snd (merge_pdfs env input_files output_path overwrite fs) p = Some Dir)"
    unfolding m using merge_pdfs_effect(2) [OF _ _ _ _ m] h by fastforce
qed

theorem unsupported_extension_rejected_witness:
  "convert_to_pdf env0 ''notes.xyz'' (Some ''/tmp'') fs0
     = (Inl (ValueError ''Unsupported file type for conversion: .xyz''), fs0)
   \<and> (\<exists>e. fst (merge_pdfs env0 [''a.pdf'', ''notes.xyz''] ''new/out.pdf'' False fs0) = Inl e)
   \<and> snd (merge_pdfs env0 [''a.pdf'', ''notes.xyz''] ''new/out.pdf'' False fs0)
        ''/home/u/new/out.pdf'' = None"
proof -
  note th = unsupported_extension_rejected [of env0 fs0 "''notes.xyz''" "Some ''/tmp''"
      "''notes.xyz''" "[''a.pdf'', ''notes.xyz'']" "''new/out.pdf''" False]
  have 1: "isfile env0 fs0 (abspath (cwd env0) ''notes.xyz'')
      \<and> py_lower (path_suffix (abspath (cwd env0) ''notes.xyz''))
            \<notin> set IMAGE_EXTS \<union> set TEXT_EXTS \<union> set DOCX_EXTS"
    by code_simp
  have x: "py_lower (path_suffix (abspath (cwd env0) ''notes.xyz'')) = ''.xyz''"
    by code_simp
  have 2: "''notes.xyz'' \<in> set [''a.pdf'', ''notes.xyz''] \<and> str_strip ''notes.xyz'' \<noteq> []
      \<and> py_lower (path_suffix ''notes.xyz'') \<noteq> ''.pdf''
      \<and> py_lower (path_suffix ''notes.xyz'') \<notin> set IMAGE_EXTS \<union> set TEXT_EXTS \<union> set DOCX_EXTS"
    by code_simp
  have 3: "\<not> in_tree (tmp_name env0) (dirname (abspath (cwd env0) ''new/out.pdf''))"
    by code_simp
  have 4: "fs0 ''/home/u/new/out.pdf'' = None"
    by code_simp
  have c: "convert_to_pdf env0 ''notes.xyz'' (Some ''/tmp'') fs0
     = (Inl (ValueError (''Unsupported file type for conversion: '' @ ''.xyz'')), fs0)"
    using th [THEN conjunct1, rule_format, OF 1] unfolding x .
  note m = th [THEN conjunct2, rule_format, OF 2]
  have e: "\<exists>e. fst (merge_pdfs env0 [''a.pdf'', ''notes.xyz''] ''new/out.pdf'' False fs0) = Inl e"
    using m by blast
  have "snd (merge_pdfs env0 [''a.pdf'', ''notes.xyz''] ''new/out.pdf'' False fs0)
          ''/home/u/new/out.pdf'' = fs0 ''/home/u/new/out.pdf''
        \<or> (fs0 ''/home/u/new/out.pdf'' = None
           \<and> snd (merge_pdfs env0 [''a.pdf'', ''notes.xyz''] ''new/out.pdf'' False fs0)
                ''/home/u/new/out.pdf'' = Some Dir)"
    using m isabs_cwd0 wf_fs0 tmp_fresh0 3 by blast
  moreover have "snd (merge_pdfs env0 [''a.pdf'', ''notes.xyz''] ''new/out.pdf'' False fs0)
          ''/home/u/new/out.pdf'' \<noteq> Some Dir"
    by code_simp
  ultimately show ?thesis
    using c e 4 by simp
qed

section \<open>Merging PDF files\<close>

lemma py_split_parts_subset: "w \<in> set (py_split s) \<Longrightarrow> set w \<subseteq> set s"
proof (induction s arbitrary: w)
  case Nil
  then show ?case by simp
next
  case (Cons x xs)
  show ?case
  proof (cases "is_sep x")
    case True
    then show ?thesis using Cons by auto
  next
    case False
    obtain a l where al: "py_split xs = a # l"
      using py_split_nonempty [of xs] by (cases "py_split xs") auto
    then have e: "py_split (x # xs) = (x # a) # l"
      using False by simp
    have "set a \<subseteq> set xs"
      using Cons.IH [of a] al by simp
    moreover have "\<And>v. v \<in> set l \<Longrightarrow> set v \<subseteq> set xs"
      using Cons.IH al by simp
    ultimately show ?thesis
      using Cons.prems unfolding e by auto
  qed
qed

lemma path_name_subset: "set (path_name p) \<subseteq> set p"
proof (cases "filter (\<lambda>x. x \<noteq> [] \<and> x \<noteq> ''.'') (py_split p) = []")
  case True
  then show ?thesis by (simp add: path_name_def)
next
  case False
  then have "last (filter (\<lambda>x. x \<noteq> [] \<and> x \<noteq> ''.'') (py_split p))
               \<in> set (filter (\<lambda>x. x \<noteq> [] \<and> x \<noteq> ''.'') (py_split p))"
    by (rule last_in_set)
  then have "path_name p \<in> set (py_split p)"
    using False by (simp add: path_name_def)
  then show ?thesis
    by (rule py_split_parts_subset)
qed

lemma path_suffix_dot: "path_suffix p \<noteq> [] \<Longrightarrow> CHR ''.'' \<in> set p"
proof -
  assume "path_suffix p \<noteq> []"
  then have "has_suffix (path_name p)"
    by (auto simp: path_suffix_def Let_def split: if_splits)
  then have "1 < length (dropWhile (\<lambda>c. \<not> is_dot c) (rev (path_name p)))"
    unfolding has_suffix_def by (rule conjunct1)
  then have n: "dropWhile (\<lambda>c. \<not> is_dot c) (rev (path_name p)) \<noteq> []"
    by (cases "dropWhile (\<lambda>c. \<not> is_dot c) (rev (path_name p))") simp_all
  then have "is_dot (hd (dropWhile (\<lambda>c. \<not> is_dot c) (rev (path_name p))))"
    using hd_dropWhile [of "\<lambda>c. \<not> is_dot c" "rev (path_name p)"] by blast
  moreover have "hd (dropWhile (\<lambda>c. \<not> is_dot c) (rev (path_name p))) \<in> set (path_name p)"
    using n by (metis hd_in_set set_dropWhileD set_rev)
  ultimately have "CHR ''.'' \<in> set (path_name p)"
    by (simp add: is_dot_def)
  then show ?thesis
    using path_name_subset by blast
qed

lemma str_strip_nonblank: "c \<in> set s \<Longrightarrow> \<not> char_isspace c \<Longrightarrow> str_strip s \<noteq> []"
proof -
  assume c: "c \<in> set s" "\<not> char_isspace c"
  then have d: "dropWhile char_isspace s \<noteq> []"
    by auto
  then have "\<not> char_isspace (hd (dropWhile char_isspace s))"
    using hd_dropWhile by blast
  then have "\<exists>x\<in>set (rev (dropWhile char_isspace s)). \<not> char_isspace x"
    using d by (metis hd_in_set set_rev)
  then show ?thesis
    by (auto simp: str_strip_def)
qed

lemma pdf_suffix_nonblank: "py_lower (path_suffix f) = ''.pdf'' \<Longrightarrow> str_strip f \<noteq> []"
proof -
  assume "py_lower (path_suffix f) = ''.pdf''"
  then have "path_suffix f \<noteq> []"
    by (auto simp: py_lower_def)
  then have "CHR ''.'' \<in> set f"
    by (rule path_suffix_dot)
  moreover have "\<not> char_isspace CHR ''.''"
    by (simp add: char_isspace_def)
  ultimately show ?thesis
    by (rule str_strip_nonblank)
qed

lemma convert_inputs_all_pdf:
  "\<forall>f\<in>set files. py_lower (path_suffix f) = ''.pdf'' \<Longrightarrow>
     convert_inputs env T files acc fs = (Inr (acc @ files), fs)"
  by (induction files arbitrary: acc) simp_all

lemma lookup_Some:
  "lookup env fs p = Some n \<Longrightarrow> walk_error env fs p = None \<and> fs (os_path env p) = Some n"
  by (auto simp: lookup_def split: option.splits)

lemma walk_error_None:
  "(walk_error env fs p = None) = (p \<noteq> [] \<and> (\<forall>d\<in>set (must_be_dirs env p). fs d = Some Dir))"
  by (auto simp: walk_error_def find_None_iff find_Some_iff split: option.splits)

lemma walk_error_mono:
  assumes "walk_error env fs p = None" "\<And>d. fs d = Some Dir \<Longrightarrow> fs' d = Some Dir"
  shows "walk_error env fs' p = None"
  using assms unfolding walk_error_None by blast

lemma read_file_lookup: "lookup env fs p = Some (File c) \<Longrightarrow> read_file env fs p = Inr c"
  by (auto simp: read_file_def dest!: lookup_Some)

lemma append_all_pdf:
  "\<forall>f\<in>set files. lookup env fs f = Some (File (PDF (pages f))) \<Longrightarrow>
     append_all env fs files m = Inr (m @ concat (map pages files))"
  by (induction files arbitrary: m) (simp_all add: merger_append_def read_file_lookup)

lemma find_isfile_None:
  "\<forall>f\<in>set files. lookup env fs f = Some (File (PDF (pages f))) \<Longrightarrow>
     find (\<lambda>f. \<not> isfile env fs f) files = None"
  by (induction files) (simp_all add: isfile_def)

lemma created_existing: "created fs fs1 d \<Longrightarrow> fs k \<noteq> None \<Longrightarrow> fs1 k = fs k"
  unfolding created_def by metis

lemma created_new_in_tree: "created fs fs1 d \<Longrightarrow> fs k = None \<Longrightarrow> fs1 k \<noteq> None \<Longrightarrow> in_tree k d"
  unfolding created_def by (metis)

lemma dirname_final_out_path: "dirname (final_out_path p) = dirname p"
proof -
  have "\<forall>c\<in>set ''.pdf''. \<not> is_sep c"
    by (simp add: is_sep_def)
  then have "dirname (p @ ''.pdf'') = dirname p"
    by (rule dirname_append_nosep)
  then show ?thesis
    using final_out_path_cases [of p] by auto
qed

lemma tmp_not_above:
  assumes "tmp_fresh env fs" "\<not> in_tree (tmp_name env) p" "isabs p"
  shows "\<not> in_tree (tmp_name env) (dirname p)"
proof
  assume i: "in_tree (tmp_name env) (dirname p)"
  have ne: "tmp_name env \<noteq> []"
    using assms(1) by (simp add: tmp_fresh_def isabs_nonempty)
  show False
  proof (cases "list_all is_sep (dirname p)")
    case True
    then have "list_all is_sep (tmp_name env)"
      using i by (rule in_tree_all_sep [rotated])
    then have "is_sep (last (tmp_name env))"
      using ne by (simp add: list_all_iff)
    then show False
      using assms(1) by (simp add: tmp_fresh_def)
  next
    case False
    have "dirname p \<noteq> []"
      using assms(3) by (simp add: isabs_dirname isabs_nonempty)
    then have "prefix (dirname p @ ''/'') p"
      using False by (rule dirname_sep_prefix)
    then have "in_tree (tmp_name env) p"
      using i by (rule in_tree_prefix [rotated])
    then show False
      using assms(2) by simp
  qed
qed

lemma merge_pdfs_all_pdf:
  assumes a: "has_backend env" "import_convert env = Inr ()" "isabs (cwd env)" "wf_fs fs"
      "tmp_fresh env fs" "fs (dirname (tmp_name env)) = Some Dir"
    and f: "input_files \<noteq> []"
      "\<forall>f\<in>set input_files. py_lower (path_suffix f) = ''.pdf''
          \<and> lookup env fs f = Some (File (PDF (pages f)))"
    and o: "out = abspath (cwd env) output_path"
      "fst (makedirs env fs (dirname out)) = Inr ()"
      "fs out \<noteq> Some Dir" "fs out \<noteq> None \<longrightarrow> overwrite"
      "fs (final_out_path out) \<noteq> Some Dir"
      "\<not> in_tree (tmp_name env) (final_out_path out)"
  shows "merge_pdfs env input_files output_path overwrite fs =
           (Inr (final_out_path out),
            rmtree ((snd (makedirs env fs (dirname out)))
                      (tmp_name env \<mapsto> Dir,
                       final_out_path out \<mapsto> File (PDF (concat (map pages input_files)))))
                   (tmp_name env))"
proof -
  define fs1 where "fs1 = snd (makedirs env fs (dirname out))"
  define T where "T = tmp_name env"
  define D where "D = dirname out"
  define F where "F = final_out_path out"
  define fs2 where "fs2 = fs1(T \<mapsto> Dir)"
  have m: "makedirs env fs D = (Inr (), fs1)"
    using o(2) unfolding fs1_def D_def by (rule fst_eq_pair)
  have co: "canonical out"
    unfolding o(1) using a(3) by (rule canonical_abspath)
  have ab: "isabs out"
    using co by (rule canonical_isabs)
  have cD: "canonical D"
    unfolding D_def using co by (rule canonical_dirname)
  have aD: "isabs D"
    using cD by (rule canonical_isabs)
  have cr: "created fs fs1 D"
    using cD m by (rule makedirs_created)
  have d1: "fs1 D = Some Dir"
    using cD m tidy_head(4) [OF canonical_tidy [OF cD]] by (rule makedirs_isdir)
  have o1: "fs1 out = fs out"
  proof (cases "fs out = None")
    case True
    have "fs1 out = None"
      using cr True unfolding D_def by (rule created_not_child)
    then show ?thesis using True by simp
  next
    case False
    show ?thesis using cr False by (rule created_existing)
  qed
  have nb: "filter (\<lambda>p. str_strip p \<noteq> []) input_files = input_files"
    using f(2) by (simp add: pdf_suffix_nonblank)
  have fi: "find (\<lambda>f. \<not> isfile env fs f) input_files = None"
    by (rule find_isfile_None [of _ _ _ pages]) (simp add: f(2))
  have dn: "dirname out \<noteq> []"
    using aD unfolding D_def by (rule isabs_nonempty)
  have v: "validate env input_files output_path overwrite fs = (Inr (input_files, out), fs1)"
    unfolding validate_def nb
    using a(1) f(1) fi dn m o1 o(3,4) co
    by (auto simp add: o(1) [symmetric] D_def isdir_abs path_exists_abs)
  have cT: "canonical T"
    using a(5) by (simp add: tmp_fresh_def T_def)
  have Tn: "fs T = None"
    using a(5) in_tree_refl [of T] by (simp add: tmp_fresh_def T_def)
  have cF: "canonical F"
    unfolding F_def using co by (rule canonical_final_out_path)
  have aF: "isabs F"
    using cF by (rule canonical_isabs)
  have dF: "dirname F = D"
    unfolding F_def D_def by (rule dirname_final_out_path)
  have nF: "\<not> in_tree T F"
    using o(6) by (simp add: T_def F_def)
  have nD: "\<not> in_tree T D"
    using tmp_not_above [OF a(5) o(6) aF [unfolded F_def]] dF by (simp add: T_def F_def)
  have T1: "fs1 T = None"
  proof (rule ccontr)
    assume "fs1 T \<noteq> None"
    with cr Tn have "in_tree T D"
      by (rule created_new_in_tree)
    then show False using nD by simp
  qed
  have pT: "fs1 (dirname T) = Some Dir"
    using created_existing [OF cr, of "dirname T"] a(6) by (simp add: T_def)
  have tmp: "TemporaryDirectory env fs1 = (Inr T, fs2)"
    using T1 pT cT
    by (simp add: TemporaryDirectory_def mkdir_def path_exists_abs parent_error_abs
        os_path_abs T_def [symmetric] fs2_def)
  have dirs: "fs2 d = Some Dir" if "fs d = Some Dir" for d
  proof -
    have "fs1 d = fs d"
      using cr by (rule created_existing) (simp add: that)
    moreover have "d \<noteq> T"
      using that Tn by auto
    ultimately show ?thesis
      using that by (simp add: fs2_def)
  qed
  have l2: "\<forall>f\<in>set input_files. lookup env fs2 f = Some (File (PDF (pages f)))"
  proof
    fix x assume x: "x \<in> set input_files"
    then have "lookup env fs x = Some (File (PDF (pages x)))"
      using f(2) by simp
    then have w: "walk_error env fs x = None"
      and l: "fs (os_path env x) = Some (File (PDF (pages x)))"
      by (simp_all add: lookup_Some)
    have w2: "walk_error env fs2 x = None"
      using w dirs by (rule walk_error_mono)
    have "os_path env x \<noteq> T"
      using l Tn by auto
    moreover have "fs1 (os_path env x) = fs (os_path env x)"
      using cr by (rule created_existing) (simp add: l)
    ultimately show "lookup env fs2 x = Some (File (PDF (pages x)))"
      using l w2 by (simp add: lookup_def fs2_def)
  qed
  have ci: "convert_inputs env T input_files [] fs2 = (Inr input_files, fs2)"
    using f(2) convert_inputs_all_pdf [of input_files env T "[]" fs2] by simp
  have ap: "append_all env fs2 input_files [] = Inr (concat (map pages input_files))"
    using append_all_pdf [OF l2, of "[]"] by simp
  have FT: "F \<noteq> T"
    using nF in_tree_refl [of T] by auto
  have F1: "fs1 F \<noteq> Some Dir"
  proof (cases "fs F = None")
    case True
    have "fs1 F = None"
      using cr True unfolding dF [symmetric] by (rule created_not_child)
    then show ?thesis by simp
  next
    case False
    have "fs1 F = fs F" using cr False by (rule created_existing)
    then show ?thesis using o(5) by (simp add: F_def)
  qed
  have ow: "open_wb env fs2 F = Inr (fs2(F \<mapsto> File (Blob [])))"
    using cF F1 FT d1 isabs_nonempty [OF aF]
    by (simp add: open_wb_def isdir_abs parent_error_abs os_path_abs dF fs2_def)
  have mb: "merge_body env input_files out T fs2 =
              (Inr F, fs2(F \<mapsto> File (PDF (concat (map pages input_files)))))"
    using cF by (simp add: merge_body_def ci ap F_def [symmetric] ow put_def os_path_abs)
  have "merge_pdfs env input_files output_path overwrite fs =
          (Inr F, rmtree (fs2(F \<mapsto> File (PDF (concat (map pages input_files))))) T)"
    using cT a(2) by (simp add: merge_pdfs_def v tmp mb cleanup_def os_path_abs)
  then show ?thesis
    by (simp add: F_def T_def fs2_def fs1_def)
qed

lemma mkdir_errno: "mkdir env fs p = Inl e \<Longrightarrow> errno_error e"
  by (auto simp: mkdir_def file_exists_error_def parent_error_def file_not_found_error_def
           not_a_directory_error_def dest!: walk_error_cases
           split: if_splits option.splits node.splits)

lemma mkdir_exist_ok_errno: "mkdir_exist_ok env fs p = (Inl e, fs1) \<Longrightarrow> errno_error e"
  by (auto simp: mkdir_exist_ok_def dest: mkdir_errno split: sum.splits if_splits)

lemma makedirs_errno: "makedirs env fs name = (Inl e, fs1) \<Longrightarrow> errno_error e"
proof (induction env fs name arbitrary: e fs1 rule: makedirs.induct)
  case (1 env fs name)
  show ?case
    using "1.prems" "1.IH"
    by (subst (asm) makedirs.simps)
       (auto dest: mkdir_exist_ok_errno split: if_splits prod.splits sum.splits)
qed

lemma errno_not_exists: "\<not> errno_error (FileExistsError (''Output file already exists: '' @ q))"
  by simp

lemma validate_exists_error:
  assumes "isabs (cwd env)"
    and "validate env input_files output_path overwrite fs
           = (Inl (FileExistsError (''Output file already exists: '' @ q)), fs1)"
  shows "q = abspath (cwd env) output_path \<and> fs (abspath (cwd env) output_path) \<noteq> None
         \<and> \<not> overwrite"
proof -
  let ?out = "abspath (cwd env) output_path"
  let ?E = "FileExistsError (''Output file already exists: '' @ q)"
  have co: "canonical ?out"
    using assms(1) by (rule canonical_abspath)
  have ab: "isabs ?out"
    using co by (rule canonical_isabs)
  have cD: "canonical (dirname ?out)"
    using co by (rule canonical_dirname)
  have dn: "dirname ?out \<noteq> []"
    using canonical_isabs [OF cD] by (rule isabs_nonempty)
  obtain r fs2 where m: "makedirs env fs (dirname ?out) = (r, fs2)"
    by (cases "makedirs env fs (dirname ?out)")
  have cr: "created fs fs2 (dirname ?out)"
    using cD m by (rule makedirs_created)
  have nm: "r \<noteq> Inl ?E"
    using makedirs_errno [of env fs "dirname ?out" ?E fs2] m errno_not_exists [of q] by auto
  have main: "q = ?out \<and> fs2 ?out \<noteq> None \<and> \<not> overwrite"
    using assms(2) dn m nm co unfolding validate_def Let_def no_backend_error_def
    by (auto simp: path_exists_abs split: if_splits option.splits sum.splits)
  have "fs ?out \<noteq> None"
  proof
    assume "fs ?out = None"
    with cr have "fs2 ?out = None"
      by (rule created_not_child)
    then show False
      using main by simp
  qed
  then show ?thesis
    using main by simp
qed

lemma import_convert_errno: "import_convert env = Inl e \<Longrightarrow> \<not> is_FileExistsError e"
  by (auto simp: import_convert_def split: option.splits)

lemma merge_pdfs_exists_error:
  assumes "isabs (cwd env)"
    and "fst (merge_pdfs env input_files output_path overwrite fs)
           = Inl (FileExistsError (''Output file already exists: '' @ q))"
  shows "q = abspath (cwd env) output_path \<and> fs (abspath (cwd env) output_path) \<noteq> None
         \<and> \<not> overwrite"
proof -
  let ?E = "FileExistsError (''Output file already exists: '' @ q)"
  obtain fs' where m: "merge_pdfs env input_files output_path overwrite fs = (Inl ?E, fs')"
    using assms(2) by (cases "merge_pdfs env input_files output_path overwrite fs") simp
  consider (check) "validate env input_files output_path overwrite fs = (Inl ?E, fs')"
    | (import) "import_convert env = Inl ?E"
    | (tmp) fs1 where "TemporaryDirectory env fs1 = (Inl ?E, fs')"
    | (body) files out T fs2 fs3 e where "merge_body env files out T fs2 = (Inl e, fs3)"
        "?E = reraise e"
    using merge_pdfs_cases [OF m] by auto
  then show ?thesis
  proof cases
    case check
    then show ?thesis
      by (rule validate_exists_error [OF assms(1)])
  next
    case import
    then show ?thesis
      using import_convert_errno [of env ?E] by simp
  next
    case tmp
    then have "mkdir env fs1 (tmp_name env) = Inl ?E"
      by (auto simp: TemporaryDirectory_def split: sum.splits)
    then have "errno_error ?E"
      by (rule mkdir_errno)
    then show ?thesis
      by simp
  next
    case body
    have "\<not> is_FileExistsError e"
      using body(1) merge_body_not_FEE by blast
    then have "reraise e \<noteq> ?E"
      by (simp add: reraise_def)
    then show ?thesis
      using body(2) by simp
  qed
qed

lemma makedirs_present:
  assumes "wf_fs fs" "canonical name" "fs name = Some Dir"
  shows "makedirs env fs name = (Inr (), fs)"
proof -
  have ex: "fs name \<noteq> None"
    using assms(3) by simp
  have nr: "makedirs env fs name = mkdir_exist_ok env fs name"
    by (rule makedirs_norec [OF makedirs_no_recursion [OF assms(1,2) ex]])
  show ?thesis
    unfolding nr using assms(2,3)
    by (simp add: mkdir_exist_ok_def mkdir_def path_exists_abs isdir_abs)
qed

lemma merge_pdfs_existing_output:
  assumes "isabs (cwd env)" "has_backend env" "wf_fs fs"
    and "filter (\<lambda>p. str_strip p \<noteq> []) input_files \<noteq> []"
    and "\<forall>f\<in>set input_files. str_strip f \<noteq> [] \<longrightarrow> isfile env fs f"
    and "fs (dirname (abspath (cwd env) output_path)) = Some Dir"
    and "fs (abspath (cwd env) output_path) = Some (File c)" "\<not> overwrite"
  shows "merge_pdfs env input_files output_path overwrite fs
           = (Inl (FileExistsError (''Output file already exists: ''
                                     @ abspath (cwd env) output_path)), fs)"
proof -
  let ?out = "abspath (cwd env) output_path"
  have co: "canonical ?out"
    using assms(1) by (rule canonical_abspath)
  have cD: "canonical (dirname ?out)"
    using co by (rule canonical_dirname)
  have dn: "dirname ?out \<noteq> []"
    using canonical_isabs [OF cD] by (rule isabs_nonempty)
  have m: "makedirs env fs (dirname ?out) = (Inr (), fs)"
    using assms(3) cD assms(6) by (rule makedirs_present)
  have fi: "find (\<lambda>f. \<not> isfile env fs f) (filter (\<lambda>p. str_strip p \<noteq> []) input_files) = None"
    using assms(5) by (auto simp: find_None_iff)
  have "validate env input_files output_path overwrite fs
          = (Inl (FileExistsError (''Output file already exists: '' @ ?out)), fs)"
    unfolding validate_def Let_def
    using assms(2,4,7,8) fi dn m co
    by (simp add: isdir_abs path_exists_abs)
  then show ?thesis
    by (simp add: merge_pdfs_def)
qed

lemma merge_body_written:
  "merge_body env files out T fs = (Inr p, fs') \<Longrightarrow>
     \<exists>ps. fs' (os_path env p) = Some (File (PDF ps))"
  by (auto simp: merge_body_def put_def split: prod.splits sum.splits)

lemma merge_pdfs_returns:
  assumes "isabs (cwd env)"
    and "merge_pdfs env input_files output_path overwrite fs = (Inr p, fs')"
  shows "p = final_out_path (abspath (cwd env) output_path)"
    and "\<not> in_tree (os_path env (tmp_name env)) p \<Longrightarrow> \<exists>ps. fs' p = Some (File (PDF ps))"
proof -
  obtain files out fs1 T fs2 fs3 where
    v: "validate env input_files output_path overwrite fs = (Inr (files, out), fs1)"
    and tmp: "TemporaryDirectory env fs1 = (Inr T, fs2)"
    and mb: "merge_body env files out T fs2 = (Inr p, fs3)"
    and f: "fs' = cleanup env fs3 T"
    using merge_pdfs_cases [OF assms(2)] by auto
  have out: "out = abspath (cwd env) output_path"
    using validate_Inr(1) [OF assms(1) v] .
  have T: "T = tmp_name env"
    using tmp by (auto simp: TemporaryDirectory_def split: sum.splits)
  show p: "p = final_out_path (abspath (cwd env) output_path)"
    using merge_body_Inr [OF mb] out by simp
  have "canonical p"
    unfolding p using canonical_abspath [OF assms(1)] by (rule canonical_final_out_path)
  then have "\<exists>ps. fs3 p = Some (File (PDF ps))"
    using merge_body_written [OF mb] by (simp add: os_path_abs)
  then show "\<exists>ps. fs' p = Some (File (PDF ps))" if "\<not> in_tree (os_path env (tmp_name env)) p"
    using that by (simp add: f cleanup_def rmtree_def T)
qed

lemma raw_tail_pdf: "raw_tail (p @ ''.pdf'') \<noteq> []"
  by (simp add: raw_tail_def is_sep_def)

lemma file_parent:
  assumes "wf_fs fs" "snd (splitext out) = []" "fs (out @ ''.pdf'') = Some (File c)"
  shows "fs (dirname out) = Some Dir"
proof -
  have f: "final_out_path out = out @ ''.pdf''"
    using assms(2) splitext_no_ext [OF assms(2)] by (simp add: final_out_path_def)
  have d: "dirname (out @ ''.pdf'') = dirname out"
    using dirname_final_out_path [of out] unfolding f .
  have "dirname (out @ ''.pdf'') \<noteq> out @ ''.pdf''"
    using dirname_fixed_tail [of "out @ ''.pdf''"] raw_tail_pdf [of out] by blast
  then have "fs (dirname (out @ ''.pdf'')) = Some Dir"
    using assms(1,3) unfolding wf_fs_def by (metis option.distinct(1))
  then show ?thesis
    unfolding d .
qed

lemma merge_pdfs_no_FileExistsError:
  assumes "isabs (cwd env)" "wf_fs fs" "tmp_fresh env fs"
    and "fs (dirname (abspath (cwd env) output_path)) = Some Dir"
    and "fs (abspath (cwd env) output_path) = None"
    and "fst (merge_pdfs env input_files output_path overwrite fs) = Inl e"
  shows "\<not> is_FileExistsError e"
proof -
  let ?out = "abspath (cwd env) output_path"
  have co: "canonical ?out"
    using assms(1) by (rule canonical_abspath)
  have cD: "canonical (dirname ?out)"
    using co by (rule canonical_dirname)
  have dn: "dirname ?out \<noteq> []"
    using canonical_isabs [OF cD] by (rule isabs_nonempty)
  have m: "makedirs env fs (dirname ?out) = (Inr (), fs)"
    using assms(2) cD assms(4) by (rule makedirs_present)
  have cT: "canonical (tmp_name env)"
    using assms(3) by (simp add: tmp_fresh_def)
  have Tn: "fs (tmp_name env) = None"
    using assms(3) in_tree_refl [of "tmp_name env"] by (simp add: tmp_fresh_def)
  obtain fs' where mp: "merge_pdfs env input_files output_path overwrite fs = (Inl e, fs')"
    using assms(6) by (cases "merge_pdfs env input_files output_path overwrite fs") simp
  consider (check) "validate env input_files output_path overwrite fs = (Inl e, fs')"
    | (import) "import_convert env = Inl e"
    | (tmp) files out fs1 where
        "validate env input_files output_path overwrite fs = (Inr (files, out), fs1)"
        "TemporaryDirectory env fs1 = (Inl e, fs')"
    | (body) files out T fs2 fs3 e' where "merge_body env files out T fs2 = (Inl e', fs3)"
        "e = reraise e'"
    using merge_pdfs_cases [OF mp] by auto
  then show ?thesis
  proof cases
    case check
    then show ?thesis
      using m dn co assms(5) unfolding validate_def Let_def no_backend_error_def
      by (auto simp: path_exists_abs split: if_splits option.splits)
  next
    case import
    then show ?thesis
      by (rule import_convert_errno)
  next
    case tmp
    have "fs1 = fs"
      using tmp(1) m dn unfolding validate_def Let_def
      by (auto split: if_splits option.splits)
    then have "mkdir env fs (tmp_name env) = Inl e"
      using tmp(2) by (auto simp: TemporaryDirectory_def split: sum.splits)
    then have "parent_error env fs (tmp_name env) = Some e"
      using Tn cT by (auto simp: mkdir_def path_exists_abs split: if_splits option.splits)
    then show ?thesis
      by (rule parent_error_not_FEE)
  next
    case body
    have "\<not> is_FileExistsError e'"
      using body(1) merge_body_not_FEE by blast
    then show ?thesis
      unfolding body(2) by (simp add: reraise_def)
  qed
qed

lemma isfile_examples:
  "isfile env0 fs0 ''a.pdf'' \<and> isfile env0 fs0 ''/home/u/./a.pdf''
   \<and> isfile env0 fs0 ''/home/u//a.pdf'' \<and> isfile env0 fs0 ''../u/a.pdf''
   \<and> \<not> isfile env0 fs0 ''a.pdf/'' \<and> \<not> isfile env0 fs0 ''zz/../a.pdf''
   \<and> \<not> isfile env0 fs0 ''a.pdf/../a.pdf'' \<and> \<not> isfile env0 fs0 ''/home/u''"
  by code_simp

lemma merge_pdfs_examples:
  "fst (merge_pdfs env0 [''a.pdf/''] ''out.pdf'' False fs0)
     = Inl (ValueError ''Input file not found: a.pdf/'')"
  "fst (merge_pdfs env0 [''zz/../a.pdf''] ''out.pdf'' False fs0)
     = Inl (ValueError ''Input file not found: zz/../a.pdf'')"
  "fst (merge_pdfs (env0\<lparr>import_error := Some ''No module named img2pdf''\<rparr>)
          [''a.pdf''] ''out.pdf'' False fs0)
     = Inl (ImportError ''No module named img2pdf'')"
  by code_simp+

text \<open>
  C1. Let the converter module be importable, and let the inputs be a list, not empty, of
  names with the suffix \<open>.pdf\<close> (in any letter case), each leading to an existing PDF
  file when the operating system resolves it: a name that passes through something that is
  not a directory (\<open>a.pdf/\<close>, \<open>zz/../a.pdf\<close> without a directory \<open>zz\<close>) leads to
  nothing, and \<open>/home/u/./a.pdf\<close> and \<open>/home/u//a.pdf\<close> lead to the file
  \<open>/home/u/a.pdf\<close>. Let the output be one that can be written: its directory exists or
  can be made, no directory lies at the output path or at the path written, a file already
  at the output path comes with \<open>overwrite\<close>, and the temporary directory is new and is
  not the path written. Then \<open>merge_pdfs\<close> returns the path written, and the file there
  holds the pages of the inputs concatenated in the order of the list: the pages of the
  first input, then those of the second, and so on, an input named twice giving its pages
  twice. So the number of pages is the sum of the numbers of pages of the inputs.
\<close>

theorem merge_pdfs_concatenates_pages:
  assumes "has_backend env" "import_convert env = Inr ()" "isabs (cwd env)" "wf_fs fs"
      "tmp_fresh env fs" "fs (dirname (tmp_name env)) = Some Dir"
    and "input_files \<noteq> []"
      "\<forall>f\<in>set input_files. py_lower (path_suffix f) = ''.pdf''
          \<and> lookup env fs f = Some (File (PDF (pages f)))"
    and "out = abspath (cwd env) output_path"
      "fst (makedirs env fs (dirname out)) = Inr ()"
      "fs out \<noteq> Some Dir" "fs out \<noteq> None \<longrightarrow> overwrite"
      "fs (final_out_path out) \<noteq> Some Dir"
      "\<not> in_tree (tmp_name env) (final_out_path out)"
  shows "fst (merge_pdfs env input_files output_path overwrite fs) = Inr (final_out_path out)
       \<and> snd (merge_pdfs env input_files output_path overwrite fs) (final_out_path out)
           = Some (File (PDF (concat (map pages input_files))))
       \<and> length (concat (map pages input_files))
           = sum_list (map (\<lambda>f. length (pages f)) input_files)"
proof -
  have "length (concat (map pages input_files))
          = sum_list (map (\<lambda>f. length (pages f)) input_files)"
    by (simp add: length_concat comp_def)
  then show ?thesis
    using assms(14) unfolding merge_pdfs_all_pdf [OF assms]
    by (simp add: rmtree_def)
qed

theorem merge_pdfs_concatenates_pages_witness:
  "fst (merge_pdfs env0 [''a.pdf'', ''/home/u/./b.pdf'', ''../u//a.pdf''] ''new/out'' False fs0)
     = Inr ''/home/u/new/out.pdf''
   \<and> snd (merge_pdfs env0 [''a.pdf'', ''/home/u/./b.pdf'', ''../u//a.pdf''] ''new/out'' False fs0)
       ''/home/u/new/out.pdf'' = Some (File (PDF [1, 2, 3, 4, 5, 1, 2]))"
proof -
  have 1: "has_backend env0"
    by code_simp
  have 2: "import_convert env0 = Inr ()"
    by code_simp
  have 5: "fs0 (dirname (tmp_name env0)) = Some Dir"
    by code_simp
  have 6: "[''a.pdf'', ''/home/u/./b.pdf'', ''../u//a.pdf''] \<noteq> []"
    by simp
  have 7: "\<forall>f\<in>set [''a.pdf'', ''/home/u/./b.pdf'', ''../u//a.pdf''].
             py_lower (path_suffix f) = ''.pdf''
             \<and> lookup env0 fs0 f = Some (File (PDF (pages0 f)))"
    by code_simp
  have 8: "''/home/u/new/out'' = abspath (cwd env0) ''new/out''"
    by code_simp
  have 9: "fst (makedirs env0 fs0 (dirname ''/home/u/new/out'')) = Inr ()"
    by code_simp
  have 10: "fs0 ''/home/u/new/out'' \<noteq> Some Dir"
    by code_simp
  have 11: "fs0 ''/home/u/new/out'' \<noteq> None \<longrightarrow> False"
    by code_simp
  have 12: "fs0 (final_out_path ''/home/u/new/out'') \<noteq> Some Dir"
    by code_simp
  have 13: "\<not> in_tree (tmp_name env0) (final_out_path ''/home/u/new/out'')"
    by code_simp
  have f: "final_out_path ''/home/u/new/out'' = ''/home/u/new/out.pdf''"
    by code_simp
  have c: "concat (map pages0 [''a.pdf'', ''/home/u/./b.pdf'', ''../u//a.pdf''])
             = [1, 2, 3, 4, 5, 1, 2]"
    by code_simp
  show ?thesis
    using merge_pdfs_concatenates_pages
      [OF 1 2 isabs_cwd0 wf_fs0 tmp_fresh0 5 6 7 8 9 10 11 12 13]
    unfolding f c by simp
qed

text \<open>
  C9. The check for an existing output looks at the absolute output path as the caller gave
  it, not at the path written. First, whenever \<open>merge_pdfs\<close> raises the FileExistsError
  \<open>Output file already exists\<close>, the path it names is the absolute output path, something
  exists there, and \<open>overwrite\<close> is false. Second, when the earlier checks pass and a file
  exists at the absolute output path while \<open>overwrite\<close> is false, this error is raised
  and nothing changes. The last three parts are about an absolute output path without an
  extension and a file that exists at that path followed by \<open>.pdf\<close>, in a file system
  where the temporary directory is new. Third, every call that returns, whatever its inputs
  and whatever \<open>overwrite\<close> is, returns the path followed by \<open>.pdf\<close>, and the file
  there is the PDF the call wrote. Fourth, when nothing exists at the absolute output path
  itself and every entry of the file system lies in a directory, no call raises a
  FileExistsError of any kind. Fifth, such a call with PDF inputs that can be read and an
  importable converter module does return, and the file at the path followed by
  \<open>.pdf\<close> holds the pages of the inputs in place of what was there.
\<close>

theorem existence_check_on_supplied_path:
  assumes "isabs (cwd env)" and "out = abspath (cwd env) output_path"
  shows "(\<forall>q. fst (merge_pdfs env input_files output_path overwrite fs)
                = Inl (FileExistsError (''Output file already exists: '' @ q))
              \<longrightarrow> q = out \<and> fs out \<noteq> None \<and> \<not> overwrite)
       \<and> (has_backend env \<and> wf_fs fs
          \<and> filter (\<lambda>p. str_strip p \<noteq> []) input_files \<noteq> []
          \<and> (\<forall>f\<in>set input_files. str_strip f \<noteq> [] \<longrightarrow> isfile env fs f)
          \<and> fs (dirname out) = Some Dir \<and> (\<exists>c. fs out = Some (File c)) \<and> \<not> overwrite
          \<longrightarrow> merge_pdfs env input_files output_path overwrite fs
                = (Inl (FileExistsError (''Output file already exists: '' @ out)), fs))
       \<and> (tmp_fresh env fs \<and> snd (splitext out) = []
          \<and> (\<exists>c. fs (out @ ''.pdf'') = Some (File c))
          \<longrightarrow> (\<forall>p fs'. merge_pdfs env input_files output_path overwrite fs = (Inr p, fs')
                  \<longrightarrow> p = out @ ''.pdf'' \<and> (\<exists>ps. fs' p = Some (File (PDF ps)))))
       \<and> (wf_fs fs \<and> tmp_fresh env fs \<and> snd (splitext out) = []
          \<and> (\<exists>c. fs (out @ ''.pdf'') = Some (File c)) \<and> fs out = None
          \<longrightarrow> (\<forall>e. fst (merge_pdfs env input_files output_path overwrite fs) = Inl e
                  \<longrightarrow> \<not> is_FileExistsError e))
       \<and> (has_backend env \<and> import_convert env = Inr () \<and> wf_fs fs \<and> tmp_fresh env fs
          \<and> fs (dirname (tmp_name env)) = Some Dir
          \<and> input_files \<noteq> []
          \<and> (\<forall>f\<in>set input_files. py_lower (path_suffix f) = ''.pdf''
                \<and> lookup env fs f = Some (File (PDF (pages f))))
          \<and> snd (splitext out) = [] \<and> \<not> overwrite \<and> fs out = None
          \<and> (\<exists>c. fs (out @ ''.pdf'') = Some (File c))
          \<longrightarrow> fst (merge_pdfs env input_files output_path overwrite fs) = Inr (out @ ''.pdf'')
              \<and> snd (merge_pdfs env input_files output_path overwrite fs) (out @ ''.pdf'')
                  = Some (File (PDF (concat (map pages input_files)))))"
proof (intro conjI)
  show "\<forall>q. fst (merge_pdfs env input_files output_path overwrite fs)
                = Inl (FileExistsError (''Output file already exists: '' @ q))
              \<longrightarrow> q = out \<and> fs out \<noteq> None \<and> \<not> overwrite"
  proof (intro allI impI)
    fix q
    assume "fst (merge_pdfs env input_files output_path overwrite fs)
              = Inl (FileExistsError (''Output file already exists: '' @ q))"
    then have "q = abspath (cwd env) output_path \<and> fs (abspath (cwd env) output_path) \<noteq> None
           \<and> \<not> overwrite"
      by (rule merge_pdfs_exists_error [OF assms(1)])
    then show "q = out \<and> fs out \<noteq> None \<and> \<not> overwrite"
      by (simp add: assms(2))
  qed
next
  show "has_backend env \<and> wf_fs fs
          \<and> filter (\<lambda>p. str_strip p \<noteq> []) input_files \<noteq> []
          \<and> (\<forall>f\<in>set input_files. str_strip f \<noteq> [] \<longrightarrow> isfile env fs f)
          \<and> fs (dirname out) = Some Dir \<and> (\<exists>c. fs out = Some (File c)) \<and> \<not> overwrite
          \<longrightarrow> merge_pdfs env input_files output_path overwrite fs
                = (Inl (FileExistsError (''Output file already exists: '' @ out)), fs)"
  proof
    assume h: "has_backend env \<and> wf_fs fs
            \<and> filter (\<lambda>p. str_strip p \<noteq> []) input_files \<noteq> []
            \<and> (\<forall>f\<in>set input_files. str_strip f \<noteq> [] \<longrightarrow> isfile env fs f)
            \<and> fs (dirname out) = Some Dir \<and> (\<exists>c. fs out = Some (File c)) \<and> \<not> overwrite"
    then obtain c where c: "fs (abspath (cwd env) output_path) = Some (File c)"
      unfolding assms(2) by blast
    have "merge_pdfs env input_files output_path overwrite fs
             = (Inl (FileExistsError (''Output file already exists: ''
                                       @ abspath (cwd env) output_path)), fs)"
    proof (rule merge_pdfs_existing_output [OF assms(1)])
      show "fs (abspath (cwd env) output_path) = Some (File c)"
        by (rule c)
    qed (insert h, simp_all add: assms(2))
    then show "merge_pdfs env input_files output_path overwrite fs
                  = (Inl (FileExistsError (''Output file already exists: '' @ out)), fs)"
      by (simp add: assms(2))
  qed
next
  show "tmp_fresh env fs \<and> snd (splitext out) = []
          \<and> (\<exists>c. fs (out @ ''.pdf'') = Some (File c))
          \<longrightarrow> (\<forall>p fs'. merge_pdfs env input_files output_path overwrite fs = (Inr p, fs')
                  \<longrightarrow> p = out @ ''.pdf'' \<and> (\<exists>ps. fs' p = Some (File (PDF ps))))"
  proof (intro impI allI)
    fix p fs'
    assume h: "tmp_fresh env fs \<and> snd (splitext out) = []
          \<and> (\<exists>c. fs (out @ ''.pdf'') = Some (File c))"
      and r: "merge_pdfs env input_files output_path overwrite fs = (Inr p, fs')"
    have e: "snd (splitext out) = []"
      using h by simp
    have f: "final_out_path out = out @ ''.pdf''"
      using e splitext_no_ext [OF e] by (simp add: final_out_path_def)
    have p: "p = out @ ''.pdf''"
      using merge_pdfs_returns(1) [OF assms(1) r] f by (simp add: assms(2))
    have "canonical (tmp_name env)"
      using h by (simp add: tmp_fresh_def)
    then have t: "os_path env (tmp_name env) = tmp_name env"
      by (rule os_path_abs)
    have "\<not> in_tree (tmp_name env) (out @ ''.pdf'')"
      using h unfolding tmp_fresh_def by auto
    then have "\<not> in_tree (os_path env (tmp_name env)) p"
      unfolding t p .
    then have "\<exists>ps. fs' p = Some (File (PDF ps))"
      by (rule merge_pdfs_returns(2) [OF assms(1) r])
    then show "p = out @ ''.pdf'' \<and> (\<exists>ps. fs' p = Some (File (PDF ps)))"
      using p by simp
  qed
next
  show "wf_fs fs \<and> tmp_fresh env fs \<and> snd (splitext out) = []
          \<and> (\<exists>c. fs (out @ ''.pdf'') = Some (File c)) \<and> fs out = None
          \<longrightarrow> (\<forall>e. fst (merge_pdfs env input_files output_path overwrite fs) = Inl e
                  \<longrightarrow> \<not> is_FileExistsError e)"
  proof (intro impI allI)
    fix e
    assume h: "wf_fs fs \<and> tmp_fresh env fs \<and> snd (splitext out) = []
          \<and> (\<exists>c. fs (out @ ''.pdf'') = Some (File c)) \<and> fs out = None"
      and r: "fst (merge_pdfs env input_files output_path overwrite fs) = Inl e"
    obtain c where c: "fs (out @ ''.pdf'') = Some (File c)"
      using h by blast
    have d: "fs (dirname out) = Some Dir"
      using h c file_parent [of fs out c] by simp
    show "\<not> is_FileExistsError e"
    proof (rule merge_pdfs_no_FileExistsError [OF assms(1) _ _ _ _ r])
      show "fs (dirname (abspath (cwd env) output_path)) = Some Dir"
        using d by (simp add: assms(2))
    qed (insert h, simp_all add: assms(2))
  qed
next
  show "has_backend env \<and> import_convert env = Inr () \<and> wf_fs fs \<and> tmp_fresh env fs
          \<and> fs (dirname (tmp_name env)) = Some Dir
          \<and> input_files \<noteq> []
          \<and> (\<forall>f\<in>set input_files. py_lower (path_suffix f) = ''.pdf''
                \<and> lookup env fs f = Some (File (PDF (pages f))))
          \<and> snd (splitext out) = [] \<and> \<not> overwrite \<and> fs out = None
          \<and> (\<exists>c. fs (out @ ''.pdf'') = Some (File c))
          \<longrightarrow> fst (merge_pdfs env input_files output_path overwrite fs) = Inr (out @ ''.pdf'')
              \<and> snd (merge_pdfs env input_files output_path overwrite fs) (out @ ''.pdf'')
                  = Some (File (PDF (concat (map pages input_files))))"
  proof
    assume h: "has_backend env \<and> import_convert env = Inr () \<and> wf_fs fs \<and> tmp_fresh env fs
            \<and> fs (dirname (tmp_name env)) = Some Dir
            \<and> input_files \<noteq> []
            \<and> (\<forall>f\<in>set input_files. py_lower (path_suffix f) = ''.pdf''
                  \<and> lookup env fs f = Some (File (PDF (pages f))))
            \<and> snd (splitext out) = [] \<and> \<not> overwrite \<and> fs out = None
            \<and> (\<exists>c. fs (out @ ''.pdf'') = Some (File c))"
    then have e: "snd (splitext out) = []"
      by simp
    have f: "final_out_path out = out @ ''.pdf''"
      using e splitext_no_ext [OF e] by (simp add: final_out_path_def)
    obtain c where c: "fs (out @ ''.pdf'') = Some (File c)"
      using h by blast
    have nd: "fs (final_out_path out) \<noteq> Some Dir"
      using c unfolding f by simp
    have nt: "\<not> in_tree (tmp_name env) (final_out_path out)"
      using h c unfolding f tmp_fresh_def by auto
    have d: "fs (dirname out) = Some Dir"
      using h c file_parent [of fs out c] by simp
    have cD: "canonical (dirname out)"
      unfolding assms(2) using canonical_abspath [OF assms(1)] by (rule canonical_dirname)
    have "makedirs env fs (dirname out) = (Inr (), fs)"
      using h cD d by (intro makedirs_present) simp_all
    then have mk: "fst (makedirs env fs (dirname out)) = Inr ()"
      by simp
    have "merge_pdfs env input_files output_path overwrite fs =
             (Inr (final_out_path out),
              rmtree ((snd (makedirs env fs (dirname out)))
                        (tmp_name env \<mapsto> Dir,
                         final_out_path out \<mapsto> File (PDF (concat (map pages input_files)))))
                     (tmp_name env))"
    proof (rule merge_pdfs_all_pdf [OF _ _ assms(1)])
      show "out = abspath (cwd env) output_path"
        by (rule assms(2))
      show "\<forall>f\<in>set input_files. py_lower (path_suffix f) = ''.pdf''
                  \<and> lookup env fs f = Some (File (PDF (pages f)))"
        using h by blast
      show "fst (makedirs env fs (dirname out)) = Inr ()"
        by (rule mk)
      show "fs (final_out_path out) \<noteq> Some Dir"
        by (rule nd)
      show "\<not> in_tree (tmp_name env) (final_out_path out)"
        by (rule nt)
    qed (insert h, simp_all)
    then show "fst (merge_pdfs env input_files output_path overwrite fs) = Inr (out @ ''.pdf'')
                \<and> snd (merge_pdfs env input_files output_path overwrite fs) (out @ ''.pdf'')
                    = Some (File (PDF (concat (map pages input_files))))"
      using nt by (simp add: f rmtree_def)
  qed
qed

theorem existence_check_on_supplied_path_witness:
  "fs0 ''/home/u/old.pdf'' = Some (File (PDF [9])) \<and> fs0 ''/home/u/old'' = None
   \<and> fst (merge_pdfs env0 [''n.txt''] ''old'' False fs0) = Inr ''/home/u/old.pdf''
   \<and> (\<exists>ps. snd (merge_pdfs env0 [''n.txt''] ''old'' False fs0) ''/home/u/old.pdf''
              = Some (File (PDF ps)))
   \<and> snd (merge_pdfs env0 [''n.txt''] ''old'' False fs0) ''/home/u/old.pdf''
       \<noteq> Some (File (PDF [9]))
   \<and> fst (merge_pdfs env0 [''a.pdf'', ''./b.pdf''] ''old'' False fs0) = Inr ''/home/u/old.pdf''
   \<and> snd (merge_pdfs env0 [''a.pdf'', ''./b.pdf''] ''old'' False fs0) ''/home/u/old.pdf''
       = Some (File (PDF [1, 2, 3, 4, 5]))
   \<and> merge_pdfs env0 [''a.pdf'', ''./b.pdf''] ''old.pdf'' False fs0
       = (Inl (FileExistsError ''Output file already exists: /home/u/old.pdf''), fs0)
   \<and> fst (merge_pdfs env0 [''notes.xyz''] ''old'' False fs0)
       = Inl (MergeError ''Failed to merge PDFs: Unsupported input type: notes.xyz''
               (Some (ValueError ''Unsupported input type: notes.xyz'')))
   \<and> \<not> is_FileExistsError (MergeError ''Failed to merge PDFs: Unsupported input type: notes.xyz''
               (Some (ValueError ''Unsupported input type: notes.xyz'')))"
proof -
  let ?t = "merge_pdfs env0 [''n.txt''] ''old'' False fs0"
  let ?x = "merge_pdfs env0 [''notes.xyz''] ''old'' False fs0"
  have o: "''/home/u/old'' = abspath (cwd env0) ''old''"
    by code_simp
  have p: "''/home/u/old.pdf'' = abspath (cwd env0) ''old.pdf''"
    by code_simp
  have a: "fs0 ''/home/u/old.pdf'' = Some (File (PDF [9]))" "fs0 ''/home/u/old'' = None"
    by code_simp+
  have 1: "has_backend env0"
    by code_simp
  have 2: "import_convert env0 = Inr ()"
    by code_simp
  have 5: "fs0 (dirname (tmp_name env0)) = Some Dir"
    by code_simp
  have 6: "[''a.pdf'', ''./b.pdf''] \<noteq> []"
    by simp
  have 7: "\<forall>f\<in>set [''a.pdf'', ''./b.pdf'']. py_lower (path_suffix f) = ''.pdf''
          \<and> lookup env0 fs0 f = Some (File (PDF (pages0 f)))"
    by code_simp
  have 10: "snd (splitext ''/home/u/old'') = []"
    by code_simp
  have 11: "\<exists>c. fs0 (''/home/u/old'' @ ''.pdf'') = Some (File c)"
    using a(1) by simp
  have c: "concat (map pages0 [''a.pdf'', ''./b.pdf'']) = [1, 2, 3, 4, 5]"
    by code_simp
  have 13: "filter (\<lambda>p. str_strip p \<noteq> []) [''a.pdf'', ''./b.pdf''] \<noteq> []"
    by code_simp
  have 14: "\<forall>f\<in>set [''a.pdf'', ''./b.pdf'']. str_strip f \<noteq> [] \<longrightarrow> isfile env0 fs0 f"
    by code_simp
  have 15: "fs0 (dirname ''/home/u/old.pdf'') = Some Dir"
    by code_simp
  have 16: "\<exists>c. fs0 ''/home/u/old.pdf'' = Some (File c)"
    using a(1) by simp
  have ft: "fst ?t = Inr ''/home/u/old.pdf''"
    by code_simp
  then have t: "?t = (Inr ''/home/u/old.pdf'', snd ?t)"
    by (rule fst_eq_pair)
  have nt: "snd ?t ''/home/u/old.pdf'' \<noteq> Some (File (PDF [9]))"
    by code_simp
  have fx: "fst ?x = Inl (MergeError ''Failed to merge PDFs: Unsupported input type: notes.xyz''
               (Some (ValueError ''Unsupported input type: notes.xyz'')))"
    by code_simp
  note E = existence_check_on_supplied_path [OF isabs_cwd0 o,
      of "[''a.pdf'', ''./b.pdf'']" False fs0 pages0, THEN conjunct2, THEN conjunct2,
      THEN conjunct2, THEN conjunct2, rule_format]
  note D = existence_check_on_supplied_path [OF isabs_cwd0 o,
      of "[''notes.xyz'']" False fs0 pages0, THEN conjunct2, THEN conjunct2,
      THEN conjunct2, THEN conjunct1, rule_format]
  note C = existence_check_on_supplied_path [OF isabs_cwd0 o,
      of "[''n.txt'']" False fs0 pages0, THEN conjunct2, THEN conjunct2,
      THEN conjunct1, rule_format]
  note A = existence_check_on_supplied_path [OF isabs_cwd0 p,
      of "[''a.pdf'', ''./b.pdf'']" False fs0 pages0, THEN conjunct2, THEN conjunct1,
      rule_format]
  have b: "fst (merge_pdfs env0 [''a.pdf'', ''./b.pdf''] ''old'' False fs0)
             = Inr (''/home/u/old'' @ ''.pdf'')
           \<and> snd (merge_pdfs env0 [''a.pdf'', ''./b.pdf''] ''old'' False fs0)
               (''/home/u/old'' @ ''.pdf'')
              = Some (File (PDF (concat (map pages0 [''a.pdf'', ''./b.pdf'']))))"
    using 1 2 wf_fs0 tmp_fresh0 5 6 7 10 a(2) 11 by (intro E) simp
  have d: "merge_pdfs env0 [''a.pdf'', ''./b.pdf''] ''old.pdf'' False fs0
             = (Inl (FileExistsError (''Output file already exists: '' @ ''/home/u/old.pdf'')), fs0)"
    using 1 wf_fs0 13 14 15 16 by (intro A) simp
  have g: "''/home/u/old.pdf'' = ''/home/u/old'' @ ''.pdf''
           \<and> (\<exists>ps. snd ?t ''/home/u/old.pdf'' = Some (File (PDF ps)))"
    using tmp_fresh0 10 11 t by (intro C) simp_all
  have x: "\<not> is_FileExistsError (MergeError ''Failed to merge PDFs: Unsupported input type: notes.xyz''
               (Some (ValueError ''Unsupported input type: notes.xyz'')))"
    using wf_fs0 tmp_fresh0 10 11 a(2) fx by (intro D) simp_all
  have b1: "fst (merge_pdfs env0 [''a.pdf'', ''./b.pdf''] ''old'' False fs0) = Inr ''/home/u/old.pdf''"
    using b [THEN conjunct1] by simp
  have b2: "snd (merge_pdfs env0 [''a.pdf'', ''./b.pdf''] ''old'' False fs0) ''/home/u/old.pdf''
       = Some (File (PDF [1, 2, 3, 4, 5]))"
    using b [THEN conjunct2] unfolding c by simp
  have d1: "merge_pdfs env0 [''a.pdf'', ''./b.pdf''] ''old.pdf'' False fs0
       = (Inl (FileExistsError ''Output file already exists: /home/u/old.pdf''), fs0)"
    using d by simp
  show ?thesis
    by (rule conjI [OF a(1) conjI [OF a(2) conjI [OF ft conjI [OF g [THEN conjunct2]
          conjI [OF nt conjI [OF b1 conjI [OF b2 conjI [OF d1 conjI [OF fx x]]]]]]]]])
qed

text \<open>
  C2 does not hold for an output path with an extension other than \<open>.pdf\<close>: for
  \<open>out.txt\<close> the call writes and returns \<open>/home/u/out.txt\<close>, and nothing is written at
  \<open>/home/u/out.txt.pdf\<close>.
\<close>

theorem output_path_other_extension_kept:
  "fst (merge_pdfs env0 [''a.pdf''] ''out.txt'' False fs0) = Inr ''/home/u/out.txt''
   \<and> \<not> suffix ''.pdf'' ''out.txt''
   \<and> ''/home/u/out.txt'' \<noteq> abspath (cwd env0) ''out.txt'' @ ''.pdf''
   \<and> snd (merge_pdfs env0 [''a.pdf''] ''out.txt'' False fs0) ''/home/u/out.txt''
       = Some (File (PDF [1, 2]))
   \<and> snd (merge_pdfs env0 [''a.pdf''] ''out.txt'' False fs0) ''/home/u/out.txt.pdf'' = None"
proof -
  have 1: "fst (merge_pdfs env0 [''a.pdf''] ''out.txt'' False fs0) = Inr ''/home/u/out.txt''"
    by code_simp
  have 2: "\<not> suffix ''.pdf'' ''out.txt''"
    by (simp add: suffix_to_prefix)
  have 3: "''/home/u/out.txt'' \<noteq> abspath (cwd env0) ''out.txt'' @ ''.pdf''"
    by code_simp
  have 4: "snd (merge_pdfs env0 [''a.pdf''] ''out.txt'' False fs0) ''/home/u/out.txt''
       = Some (File (PDF [1, 2]))"
    by code_simp
  have 5: "snd (merge_pdfs env0 [''a.pdf''] ''out.txt'' False fs0) ''/home/u/out.txt.pdf'' = None"
    by code_simp
  show ?thesis
    using 1 2 3 4 5 by simp
qed

text \<open>
  C2, as the code has it. The extension is the one \<open>os.path.splitext\<close> finds in the
  absolute output path. When it is empty, the path written and returned is the absolute
  output path followed by \<open>.pdf\<close>; when it is not empty (\<open>.pdf\<close>, \<open>.PDF\<close>, \<open>.txt\<close>,
  any other), the path written and returned is the absolute output path itself. When the
  call returns, a PDF file is at that path (a path inside the temporary directory apart,
  which is removed).
\<close>

theorem output_path_extension:
  assumes "isabs (cwd env)" and "out = abspath (cwd env) output_path"
    and "merge_pdfs env input_files output_path overwrite fs = (Inr p, fs')"
  shows "(snd (splitext out) = [] \<longrightarrow> p = out @ ''.pdf'')
       \<and> (snd (splitext out) \<noteq> [] \<longrightarrow> p = out)
       \<and> (\<not> in_tree (os_path env (tmp_name env)) p \<longrightarrow> (\<exists>ps. fs' p = Some (File (PDF ps))))"
proof -
  have p: "p = final_out_path out"
    using merge_pdfs_returns(1) [OF assms(1,3)] assms(2) by simp
  have "snd (splitext out) = [] \<longrightarrow> p = out @ ''.pdf''"
    unfolding p by (simp add: final_out_path_def splitext_no_ext)
  moreover have "snd (splitext out) \<noteq> [] \<longrightarrow> p = out"
    unfolding p by (simp add: final_out_path_def)
  moreover have "\<not> in_tree (os_path env (tmp_name env)) p \<longrightarrow> (\<exists>ps. fs' p = Some (File (PDF ps)))"
    using merge_pdfs_returns(2) [OF assms(1,3)] by blast
  ultimately show ?thesis
    by blast
qed

theorem output_path_extension_witness:
  "fst (merge_pdfs env0 [''a.pdf''] ''out'' False fs0) = Inr ''/home/u/out.pdf''
   \<and> (\<exists>ps. snd (merge_pdfs env0 [''a.pdf''] ''out'' False fs0) ''/home/u/out.pdf''
              = Some (File (PDF ps)))
   \<and> fst (merge_pdfs env0 [''a.pdf''] ''r.PDF'' False fs0) = Inr ''/home/u/r.PDF''"
proof -
  let ?m = "merge_pdfs env0 [''a.pdf''] ''out'' False fs0"
  let ?n = "merge_pdfs env0 [''a.pdf''] ''r.PDF'' False fs0"
  have fm: "fst ?m = Inr ''/home/u/out.pdf''"
    by code_simp
  then have m: "?m = (Inr ''/home/u/out.pdf'', snd ?m)"
    by (rule fst_eq_pair)
  have fn: "fst ?n = Inr ''/home/u/r.PDF''"
    by code_simp
  then have n: "?n = (Inr ''/home/u/r.PDF'', snd ?n)"
    by (rule fst_eq_pair)
  have o: "''/home/u/out'' = abspath (cwd env0) ''out''"
    by code_simp
  have r: "''/home/u/r.PDF'' = abspath (cwd env0) ''r.PDF''"
    by code_simp
  have t: "\<not> in_tree (os_path env0 (tmp_name env0)) ''/home/u/out.pdf''"
    by code_simp
  have e: "snd (splitext ''/home/u/out'') = []" "snd (splitext ''/home/u/r.PDF'') \<noteq> []"
    by code_simp+
  note 1 = output_path_extension [OF isabs_cwd0 o m]
  note 2 = output_path_extension [OF isabs_cwd0 r n]
  show ?thesis
    using 1 2 t e fm fn by simp
qed

section \<open>The paths of converted files\<close>

lemma related_refl: "related K fs fs"
  by (simp add: related_def)

lemma related_update: "fs K = Some (File c0) \<Longrightarrow> related K fs (fs(K \<mapsto> File c))"
  by (simp add: related_def)

lemma related_dir: "related K fs fs' \<Longrightarrow> (fs' d = Some Dir) = (fs d = Some Dir)"
  by (cases "d = K") (auto simp: related_def)

lemma related_none: "related K fs fs' \<Longrightarrow> (fs' d = None) = (fs d = None)"
  by (cases "d = K") (auto simp: related_def)

lemma walk_error_related:
  assumes "related K fs fs'"
  shows "walk_error env fs' p = walk_error env fs p"
proof -
  have 1: "(\<lambda>d. fs' d \<noteq> Some Dir) = (\<lambda>d. fs d \<noteq> Some Dir)"
    by (simp add: related_dir [OF assms])
  have 2: "(case fs' d of None \<Rightarrow> a | Some n \<Rightarrow> b) = (case fs d of None \<Rightarrow> a | Some n \<Rightarrow> b)"
    for d and a b :: "exn option"
    using related_none [OF assms, of d] by (cases "fs d"; cases "fs' d") auto
  show ?thesis
  proof (cases "find (\<lambda>d. fs d \<noteq> Some Dir) (must_be_dirs env p)")
    case None
    then show ?thesis
      unfolding walk_error_def 1 by simp
  next
    case (Some d)
    then show ?thesis
      unfolding walk_error_def 1 by (simp add: 2)
  qed
qed

lemma lookup_related:
  "related K fs fs' \<Longrightarrow> os_path env p \<noteq> K \<Longrightarrow> lookup env fs' p = lookup env fs p"
  by (auto simp: related_def lookup_def walk_error_related split: option.splits)

lemma read_file_related:
  assumes "related K fs fs'" "os_path env p \<noteq> K"
  shows "read_file env fs' p = read_file env fs p"
proof -
  have "fs' (os_path env p) = fs (os_path env p)"
    using assms by (auto simp: related_def)
  then show ?thesis
    unfolding read_file_def walk_error_related [OF assms(1)]
    by (cases "walk_error env fs p") simp_all
qed

lemma isfile_related:
  "related K fs fs' \<Longrightarrow> os_path env p \<noteq> K \<Longrightarrow> isfile env fs' p = isfile env fs p"
  by (simp add: isfile_def lookup_related)

lemma isdir_related:
  assumes "related K fs fs'"
  shows "isdir env fs' p = isdir env fs p"
  unfolding isdir_def lookup_def walk_error_related [OF assms]
  using related_dir [OF assms, of "os_path env p"] by (simp split: option.splits)

lemma parent_error_related:
  assumes "related K fs fs'"
  shows "parent_error env fs' p = parent_error env fs p"
proof -
  have "(case fs' d of None \<Rightarrow> a | Some (File c) \<Rightarrow> b | Some Dir \<Rightarrow> x)
          = (case fs d of None \<Rightarrow> a | Some (File c) \<Rightarrow> b | Some Dir \<Rightarrow> x)"
    for d and a b x :: "exn option"
    using related_dir [OF assms, of d] related_none [OF assms, of d]
    by (auto split: option.splits node.splits)
  then show ?thesis
    unfolding parent_error_def walk_error_related [OF assms]
    by (cases "walk_error env fs p") simp_all
qed

lemma open_wb_related:
  assumes "related K fs fs'"
  shows "open_wb env fs p = Inl e \<Longrightarrow> open_wb env fs' p = Inl e"
    and "open_wb env fs p = Inr g \<Longrightarrow>
           \<exists>g'. open_wb env fs' p = Inr g' \<and> related K g g' \<and> (os_path env p = K \<longrightarrow> g' = g)"
proof -
  note s = isdir_related [OF assms, of env p] parent_error_related [OF assms, of env p]
  show "open_wb env fs p = Inl e \<Longrightarrow> open_wb env fs' p = Inl e"
    by (auto simp: open_wb_def s split: if_splits option.splits)
  assume "open_wb env fs p = Inr g"
  then have g: "g = fs(os_path env p \<mapsto> File (Blob []))"
    and o: "open_wb env fs' p = Inr (fs'(os_path env p \<mapsto> File (Blob [])))"
    by (auto simp: open_wb_def s split: if_splits option.splits)
  have "related K g (fs'(os_path env p \<mapsto> File (Blob [])))"
    using assms unfolding g related_def by auto
  moreover have "os_path env p = K \<longrightarrow> fs'(os_path env p \<mapsto> File (Blob [])) = g"
    using assms unfolding g related_def by auto
  ultimately show "\<exists>g'. open_wb env fs' p = Inr g' \<and> related K g g' \<and> (os_path env p = K \<longrightarrow> g' = g)"
    using o by blast
qed

lemma put_related: "related K fs fs' \<Longrightarrow> related K (put env fs p c) (put env fs' p c)"
  unfolding related_def put_def by auto

lemma write_img2pdf_related:
  assumes "related K fs fs'" "os_path env out = K" "write_img2pdf env fs out p kw = (r, g)"
  shows "\<exists>g'. write_img2pdf env fs' out p kw = (r, g') \<and> related K g g'
              \<and> ((\<exists>u. r = Inr u) \<longrightarrow> g' = g)"
proof (cases "open_wb env fs out")
  case (Inl e)
  then have "open_wb env fs' out = Inl e"
    by (rule open_wb_related(1) [OF assms(1)])
  then show ?thesis
    using assms(1,3) Inl by (auto simp: write_img2pdf_def)
next
  case (Inr g1)
  then have "open_wb env fs' out = Inr g1"
    using open_wb_related(2) [OF assms(1) Inr] assms(2) by auto
  then have "write_img2pdf env fs' out p kw = write_img2pdf env fs out p kw"
    using Inr by (simp add: write_img2pdf_def)
  then show ?thesis
    using assms(3) by (simp add: related_refl)
qed

lemma save_pdf_related:
  assumes "related K fs fs'" "os_path env out = K" "save_pdf env fs out ps = (r, g)"
  shows "\<exists>g'. save_pdf env fs' out ps = (r, g') \<and> related K g g'
              \<and> ((\<exists>u. r = Inr u) \<longrightarrow> g' = g)"
proof (cases "open_wb env fs out")
  case (Inl e)
  then have "open_wb env fs' out = Inl e"
    by (rule open_wb_related(1) [OF assms(1)])
  then show ?thesis
    using assms(1,3) Inl by (auto simp: save_pdf_def)
next
  case (Inr g1)
  then have "open_wb env fs' out = Inr g1"
    using open_wb_related(2) [OF assms(1) Inr] assms(2) by auto
  then have "save_pdf env fs' out ps = save_pdf env fs out ps"
    using Inr by (simp add: save_pdf_def)
  then show ?thesis
    using assms(3) by (simp add: related_refl)
qed

lemma pillow_fix_related:
  assumes "related K fs fs'" "os_path env img \<noteq> K" "pillow_fix env fs img fixed = (r, g)"
  shows "\<exists>g'. pillow_fix env fs' img fixed = (r, g') \<and> related K g g'"
proof -
  have rd: "read_file env fs' img = read_file env fs img"
    using assms(1,2) by (rule read_file_related)
  show ?thesis
  proof (cases "read_file env fs img")
    case (Inl e)
    then show ?thesis
      using assms(1,3) rd by (auto simp: pillow_fix_def)
  next
    case c: (Inr c)
    show ?thesis
    proof (cases "pil_transpose_png env img c")
      case (Inl m)
      then show ?thesis
        using assms(1,3) rd c by (auto simp: pillow_fix_def)
    next
      case png: (Inr png)
      show ?thesis
      proof (cases "open_wb env fs fixed")
        case (Inl e)
        then have "open_wb env fs' fixed = Inl e"
          by (rule open_wb_related(1) [OF assms(1)])
        then show ?thesis
          using assms(1,3) rd c png Inl by (auto simp: pillow_fix_def)
      next
        case (Inr g1)
        then obtain g1' where o: "open_wb env fs' fixed = Inr g1'" and r1: "related K g1 g1'"
          using open_wb_related(2) [OF assms(1) Inr] by blast
        have "related K (put env g1 fixed png) (put env g1' fixed png)"
          using r1 by (rule put_related)
        then show ?thesis
          using assms(3) rd c png Inr o by (auto simp: pillow_fix_def)
      qed
    qed
  qed
qed

lemma fallback_related:
  assumes "related K fs fs'" "os_path env out = K" "os_path env img \<noteq> K"
    "fallback env fs img out d = (r, g)"
  shows "\<exists>g'. fallback env fs' img out d = (r, g') \<and> related K g g'
              \<and> ((\<exists>u. r = Inr u) \<longrightarrow> g' = g)"
proof -
  define fixed where "fixed = join d (''fixed_'' @ path_stem img @ ''.png'')"
  have fb: "\<And>h. fallback env h img out d =
      (case pillow_fix env h img fixed of
         (Inl e, fs1) \<Rightarrow> last_resort env fs1 img out
       | (Inr u, fs1) \<Rightarrow>
           (case write_img2pdf env fs1 out fixed \<lparr>auto_orient = Some False, rotation = None\<rparr> of
              (Inl e, fs2) \<Rightarrow> last_resort env fs2 img out
            | (Inr v, fs2) \<Rightarrow> (Inr (), fs2)))"
    unfolding fallback_def Let_def fixed_def by (rule refl)
  obtain r1 g1 where p: "pillow_fix env fs img fixed = (r1, g1)"
    by (cases "pillow_fix env fs img fixed")
  obtain g1' where p': "pillow_fix env fs' img fixed = (r1, g1')" and rel1: "related K g1 g1'"
    using pillow_fix_related [OF assms(1,3) p] by blast
  show ?thesis
  proof (cases r1)
    case (Inl e)
    then have "last_resort env g1 img out = (r, g)"
      using assms(4) p by (simp add: fb)
    then have "write_img2pdf env g1 out img \<lparr>auto_orient = None, rotation = None\<rparr> = (r, g)"
      by (simp add: last_resort_def)
    from write_img2pdf_related [OF rel1 assms(2) this]
    show ?thesis
      using p' Inl by (simp add: fb last_resort_def)
  next
    case (Inr u)
    obtain r2 g2 where w: "write_img2pdf env g1 out fixed
        \<lparr>auto_orient = Some False, rotation = None\<rparr> = (r2, g2)"
      by (cases "write_img2pdf env g1 out fixed \<lparr>auto_orient = Some False, rotation = None\<rparr>")
    obtain g2' where w': "write_img2pdf env g1' out fixed
        \<lparr>auto_orient = Some False, rotation = None\<rparr> = (r2, g2')"
      and rel2: "related K g2 g2'" and eq2: "(\<exists>u. r2 = Inr u) \<longrightarrow> g2' = g2"
      using write_img2pdf_related [OF rel1 assms(2) w] by blast
    show ?thesis
    proof (cases r2)
      case (Inl e)
      then have "last_resort env g2 img out = (r, g)"
        using assms(4) p \<open>r1 = Inr u\<close> w by (simp add: fb)
      then have "write_img2pdf env g2 out img \<lparr>auto_orient = None, rotation = None\<rparr> = (r, g)"
        by (simp add: last_resort_def)
      from write_img2pdf_related [OF rel2 assms(2) this]
      show ?thesis
        using p' \<open>r1 = Inr u\<close> w' Inl
        by (simp add: fb last_resort_def)
    next
      case v: (Inr v)
      then have "r = Inr ()" "g = g2"
        using assms(4) p \<open>r1 = Inr u\<close> w by (simp_all add: fb)
      moreover have "g2' = g2"
        using eq2 v by simp
      ultimately show ?thesis
        using p' \<open>r1 = Inr u\<close> w' v
        by (simp add: fb related_refl)
    qed
  qed
qed

lemma image_to_pdf_related:
  assumes "related K fs fs'" "os_path env out = K" "os_path env img \<noteq> K"
    "image_to_pdf env img out d fs = (r, g)"
  shows "\<exists>g'. image_to_pdf env img out d fs' = (r, g') \<and> related K g g'
              \<and> ((\<exists>u. r = Inr u) \<longrightarrow> g' = g)"
proof -
  obtain r1 g1 where w: "write_img2pdf env fs out img (first_kwargs env) = (r1, g1)"
    by (cases "write_img2pdf env fs out img (first_kwargs env)")
  obtain g1' where w': "write_img2pdf env fs' out img (first_kwargs env) = (r1, g1')"
    and rel1: "related K g1 g1'" and eq1: "(\<exists>u. r1 = Inr u) \<longrightarrow> g1' = g1"
    using write_img2pdf_related [OF assms(1,2) w] by blast
  show ?thesis
  proof (cases r1)
    case (Inr u)
    then show ?thesis
      using assms(4) w w' eq1 by (auto simp: image_to_pdf_def related_refl)
  next
    case (Inl e)
    show ?thesis
    proof (cases "unrelated_to_rotation e")
      case True
      then show ?thesis
        using assms(4) w w' Inl rel1 by (auto simp: image_to_pdf_def)
    next
      case False
      then have "fallback env g1 img out d = (r, g)"
        using assms(4) w Inl by (simp add: image_to_pdf_def)
      from fallback_related [OF rel1 assms(2,3) this]
      show ?thesis
        using w' Inl False by (simp add: image_to_pdf_def)
    qed
  qed
qed

lemma text_to_pdf_related:
  assumes "related K fs fs'" "os_path env out = K" "os_path env txt \<noteq> K"
    "text_to_pdf env txt out fs = (r, g)"
  shows "\<exists>g'. text_to_pdf env txt out fs' = (r, g') \<and> related K g g'
              \<and> ((\<exists>u. r = Inr u) \<longrightarrow> g' = g)"
proof -
  have rd: "read_text env fs' txt Ignore = read_text env fs txt Ignore"
    using assms(1,3) by (simp add: read_text_def read_file_related)
  show ?thesis
  proof (cases "read_text env fs txt Ignore")
    case (Inl e)
    then show ?thesis
      using assms(1,4) rd by (auto simp: text_to_pdf_def)
  next
    case c: (Inr content)
    show ?thesis
    proof (cases "reportlab_build env (make_story content) (path_name txt)")
      case (Inl m)
      then show ?thesis
        using assms(1,4) rd c by (auto simp: text_to_pdf_def)
    next
      case (Inr ps)
      then have "save_pdf env fs out ps = (r, g)"
        using assms(4) c by (simp add: text_to_pdf_def)
      from save_pdf_related [OF assms(1,2) this]
      show ?thesis
        using rd c Inr by (simp add: text_to_pdf_def)
    qed
  qed
qed

lemma docx_to_pdf_related:
  assumes "related K fs fs'" "os_path env out = K" "os_path env p \<noteq> K"
    "docx_to_pdf env p out fs = (r, g)"
  shows "\<exists>g'. docx_to_pdf env p out fs' = (r, g') \<and> related K g g'
              \<and> ((\<exists>u. r = Inr u) \<longrightarrow> g' = g)"
proof -
  have rd: "read_file env fs' p = read_file env fs p"
    using assms(1,3) by (rule read_file_related)
  show ?thesis
  proof (cases "read_file env fs p")
    case (Inl e)
    then show ?thesis
      using assms(1,4) rd by (auto simp: docx_to_pdf_def)
  next
    case c: (Inr c)
    show ?thesis
    proof (cases "docx2pdf_convert env p c")
      case (Inl m)
      then show ?thesis
        using assms(1,4) rd c by (auto simp: docx_to_pdf_def)
    next
      case (Inr ps)
      then have "save_pdf env fs out ps = (r, g)"
        using assms(4) c by (simp add: docx_to_pdf_def)
      from save_pdf_related [OF assms(1,2) this]
      show ?thesis
        using rd c Inr by (simp add: docx_to_pdf_def)
    qed
  qed
qed

lemma returning_Inr: "returning out x = (Inr p, g) \<Longrightarrow> p = out \<and> (\<exists>u. x = (Inr u, g))"
  by (auto simp: returning_def split: prod.splits sum.splits)

lemma convert_to_pdf_related:
  assumes "convert_to_pdf env i t fs = (Inr out, g)"
    and "related (os_path env out) fs fs'"
    and "os_path env (abspath (cwd env) i) \<noteq> os_path env out"
  shows "convert_to_pdf env i t fs' = (Inr out, g)"
proof -
  define inp where "inp = abspath (cwd env) i"
  define d where "d = (case t of None \<Rightarrow> tmp_root env | Some x \<Rightarrow> x)"
  define ext where "ext = py_lower (path_suffix inp)"
  note defs = inp_def [symmetric] d_def [symmetric] ext_def [symmetric]
  have ne: "os_path env inp \<noteq> os_path env out"
    using assms(3) by (simp add: inp_def)
  have f: "isfile env fs' inp = isfile env fs inp"
    using assms(2) ne by (rule isfile_related)
  have isf: "isfile env fs inp"
    using assms(1) by (auto simp: convert_to_pdf_def Let_def defs split: if_splits)
  consider (image) "ext \<in> set IMAGE_EXTS"
    | (plain) "ext \<notin> set IMAGE_EXTS" "ext \<in> set TEXT_EXTS"
    | (word) "ext \<notin> set IMAGE_EXTS" "ext \<notin> set TEXT_EXTS" "ext \<in> set DOCX_EXTS"
    | (other) "ext \<notin> set IMAGE_EXTS" "ext \<notin> set TEXT_EXTS" "ext \<notin> set DOCX_EXTS"
    by blast
  then show ?thesis
  proof cases
    case image
    define o1 where "o1 = join d (''img_'' @ path_stem inp @ ''.pdf'')"
    have c: "\<And>h. convert_to_pdf env i t h =
        (if \<not> isfile env h inp then (Inl (ValueError (''Input not found: '' @ inp)), h)
         else returning o1 (image_to_pdf env inp o1 d h))"
      using image by (simp add: convert_to_pdf_def Let_def defs o1_def)
    have "returning o1 (image_to_pdf env inp o1 d fs) = (Inr out, g)"
      using assms(1) isf by (simp add: c)
    from returning_Inr [OF this]
    obtain u where o: "out = o1" and x: "image_to_pdf env inp o1 d fs = (Inr u, g)"
      by auto
    have "\<exists>g'. image_to_pdf env inp o1 d fs' = (Inr u, g') \<and> related (os_path env o1) g g'
              \<and> ((\<exists>v. (Inr u :: exn + unit) = Inr v) \<longrightarrow> g' = g)"
      by (rule image_to_pdf_related [OF assms(2) [unfolded o] refl ne [unfolded o] x])
    then have "image_to_pdf env inp o1 d fs' = (Inr u, g)"
      by auto
    then show ?thesis
      using isf f by (simp add: c o returning_def)
  next
    case plain
    define o1 where "o1 = join d (''txt_'' @ path_stem inp @ ''.pdf'')"
    have c: "\<And>h. convert_to_pdf env i t h =
        (if \<not> isfile env h inp then (Inl (ValueError (''Input not found: '' @ inp)), h)
         else returning o1 (text_to_pdf env inp o1 h))"
      using plain by (simp add: convert_to_pdf_def Let_def defs o1_def)
    have "returning o1 (text_to_pdf env inp o1 fs) = (Inr out, g)"
      using assms(1) isf by (simp add: c)
    from returning_Inr [OF this]
    obtain u where o: "out = o1" and x: "text_to_pdf env inp o1 fs = (Inr u, g)"
      by auto
    have "\<exists>g'. text_to_pdf env inp o1 fs' = (Inr u, g') \<and> related (os_path env o1) g g'
              \<and> ((\<exists>v. (Inr u :: exn + unit) = Inr v) \<longrightarrow> g' = g)"
      by (rule text_to_pdf_related [OF assms(2) [unfolded o] refl ne [unfolded o] x])
    then have "text_to_pdf env inp o1 fs' = (Inr u, g)"
      by auto
    then show ?thesis
      using isf f by (simp add: c o returning_def)
  next
    case word
    define o1 where "o1 = join d (''docx_'' @ path_stem inp @ ''.pdf'')"
    have c: "\<And>h. convert_to_pdf env i t h =
        (if \<not> isfile env h inp then (Inl (ValueError (''Input not found: '' @ inp)), h)
         else if \<not> has_docx2pdf env
         then (Inl (ValueError (''.docx support requires '' @ quoted ''docx2pdf''
                                          @ '' and Microsoft Word on Windows.'')), h)
         else returning o1 (docx_to_pdf env inp o1 h))"
      using word by (simp add: convert_to_pdf_def Let_def defs o1_def)
    have hd: "has_docx2pdf env"
      using assms(1) isf by (auto simp: c split: if_splits)
    have "returning o1 (docx_to_pdf env inp o1 fs) = (Inr out, g)"
      using assms(1) isf hd by (simp add: c)
    from returning_Inr [OF this]
    obtain u where o: "out = o1" and x: "docx_to_pdf env inp o1 fs = (Inr u, g)"
      by auto
    have "\<exists>g'. docx_to_pdf env inp o1 fs' = (Inr u, g') \<and> related (os_path env o1) g g'
              \<and> ((\<exists>v. (Inr u :: exn + unit) = Inr v) \<longrightarrow> g' = g)"
      by (rule docx_to_pdf_related [OF assms(2) [unfolded o] refl ne [unfolded o] x])
    then have "docx_to_pdf env inp o1 fs' = (Inr u, g)"
      by auto
    then show ?thesis
      using isf f hd by (simp add: c o returning_def)
  next
    case other
    then have False
      using assms(1) by (auto simp: convert_to_pdf_def Let_def defs split: if_splits)
    then show ?thesis ..
  qed
qed

lemma type_tag_cases:
  "type_tag e = Some tag \<Longrightarrow> tag = ''img_'' \<or> tag = ''txt_'' \<or> tag = ''docx_''"
  by (auto simp: type_tag_def split: if_splits)

lemma convert_to_pdf_out:
  assumes "convert_to_pdf env i t fs = (Inr out, g)"
  shows "\<exists>tag. input_tag env i = Some tag
           \<and> out = tmp_output tag (input_stem env i)
                     (case t of None \<Rightarrow> tmp_root env | Some x \<Rightarrow> x)"
  using assms
  unfolding convert_to_pdf_def Let_def input_tag_def input_stem_def type_tag_def tmp_output_def
  by (auto split: if_splits dest!: returning_Inr)

lemma write_img2pdf_written:
  "write_img2pdf env fs out p kw = (Inr u, g) \<Longrightarrow>
     \<exists>ps. g (os_path env out) = Some (File (PDF ps))"
  by (auto simp: write_img2pdf_def put_def split: sum.splits)

lemma save_pdf_written:
  "save_pdf env fs out ps = (Inr u, g) \<Longrightarrow> g (os_path env out) = Some (File (PDF ps))"
  by (auto simp: save_pdf_def put_def split: sum.splits)

lemma fallback_written:
  "fallback env fs img out d = (Inr u, g) \<Longrightarrow>
     \<exists>ps. g (os_path env out) = Some (File (PDF ps))"
  unfolding fallback_def Let_def last_resort_def
  by (auto split: prod.splits sum.splits dest: write_img2pdf_written)

lemma image_to_pdf_written:
  "image_to_pdf env img out d fs = (Inr u, g) \<Longrightarrow>
     \<exists>ps. g (os_path env out) = Some (File (PDF ps))"
  unfolding image_to_pdf_def
  by (auto split: prod.splits sum.splits if_splits
           dest: write_img2pdf_written fallback_written)

lemma text_to_pdf_written:
  "text_to_pdf env txt out fs = (Inr u, g) \<Longrightarrow>
     \<exists>ps. g (os_path env out) = Some (File (PDF ps))"
  unfolding text_to_pdf_def
  by (auto split: sum.splits dest: save_pdf_written)

lemma docx_to_pdf_written:
  "docx_to_pdf env p out fs = (Inr u, g) \<Longrightarrow>
     \<exists>ps. g (os_path env out) = Some (File (PDF ps))"
  unfolding docx_to_pdf_def
  by (auto split: sum.splits dest: save_pdf_written)

lemma convert_to_pdf_written:
  assumes "convert_to_pdf env i t fs = (Inr out, g)"
  shows "\<exists>ps. g (os_path env out) = Some (File (PDF ps))"
  using assms unfolding convert_to_pdf_def Let_def
  by (auto split: if_splits
           dest!: returning_Inr image_to_pdf_written text_to_pdf_written docx_to_pdf_written)

lemma py_split_append_nosep:
  "\<forall>c\<in>set s. \<not> is_sep c \<Longrightarrow>
     py_split (q @ s) = butlast (py_split q) @ [last (py_split q) @ s]"
proof (induction q)
  case Nil
  then show ?case by (simp add: py_split_nosep)
next
  case (Cons x xs)
  obtain a l where al: "py_split xs = a # l"
    using py_split_nonempty [of xs] by (cases "py_split xs") auto
  have IH: "py_split (xs @ s) = butlast (a # l) @ [last (a # l) @ s]"
    using Cons al by simp
  show ?case
  proof (cases "is_sep x")
    case True
    then show ?thesis
      using IH al by simp
  next
    case False
    show ?thesis
    proof (cases "l = []")
      case True
      then show ?thesis
        using IH al False by simp
    next
      case nl: False
      then show ?thesis
        using IH al False by simp
    qed
  qed
qed

lemma path_name_pdf: "path_name (q @ ''.pdf'') = last (py_split q) @ ''.pdf''"
proof -
  have "\<forall>c\<in>set ''.pdf''. \<not> is_sep c"
    by (simp add: is_sep_def)
  then have "py_split (q @ ''.pdf'') = butlast (py_split q) @ [last (py_split q) @ ''.pdf'']"
    by (rule py_split_append_nosep)
  then show ?thesis
    by (simp add: path_name_def)
qed

lemma path_suffix_pdf:
  "path_suffix (q @ ''.pdf'') = [] \<or> path_suffix (q @ ''.pdf'') = ''.pdf''"
  unfolding path_suffix_def path_name_pdf Let_def
  by (simp add: is_dot_def)

lemma join_ends: "\<exists>q. join d (n @ s) = q @ s"
proof -
  have "join d (n @ s) = n @ s \<or> join d (n @ s) = (d @ n) @ s
        \<or> join d (n @ s) = (d @ ''/'' @ n) @ s"
    by (simp add: join_def)
  then show ?thesis
    by blast
qed

lemma suffix_pdf_unsupported:
  assumes "type_tag (py_lower (path_suffix p)) = Some tag"
  shows "p \<noteq> q @ ''.pdf''"
proof
  assume "p = q @ ''.pdf''"
  then have "path_suffix p = [] \<or> path_suffix p = ''.pdf''"
    using path_suffix_pdf [of q] by simp
  then have "py_lower (path_suffix p) = [] \<or> py_lower (path_suffix p) = ''.pdf''"
    by (auto simp: py_lower_def py_lower_char_def)
  then have "type_tag (py_lower (path_suffix p)) = None"
    by (auto simp: type_tag_def IMAGE_EXTS_def TEXT_EXTS_def DOCX_EXTS_def)
  then show False
    using assms by simp
qed

lemma join_inj: "\<not> isabs a \<Longrightarrow> \<not> isabs b \<Longrightarrow> join d a = join d b \<Longrightarrow> a = b"
  by (simp add: join_def split: if_splits)

lemma tagged_distinct:
  assumes "type_tag e1 = Some tag1" "type_tag e2 = Some tag2" "tag1 \<noteq> tag2"
  shows "tag1 @ s1 \<noteq> tag2 @ s2"
  using type_tag_cases [OF assms(1)] type_tag_cases [OF assms(2)] assms(3) by auto

lemma tmp_output_distinct:
  assumes "type_tag e1 = Some tag1" "type_tag e2 = Some tag2" "tag1 \<noteq> tag2"
  shows "tmp_output tag1 s1 d \<noteq> tmp_output tag2 s2 d"
proof
  assume "tmp_output tag1 s1 d = tmp_output tag2 s2 d"
  then have j: "join d (tag1 @ s1 @ ''.pdf'') = join d (tag2 @ s2 @ ''.pdf'')"
    by (simp add: tmp_output_def)
  have "\<not> isabs (tag1 @ s1 @ ''.pdf'')" "\<not> isabs (tag2 @ s2 @ ''.pdf'')"
    using type_tag_cases [OF assms(1)] type_tag_cases [OF assms(2)] not_isabs_tagged
    by auto
  then have "tag1 @ s1 @ ''.pdf'' = tag2 @ s2 @ ''.pdf''"
    using j by (rule join_inj)
  then show False
    using tagged_distinct [OF assms] by blast
qed

lemma norm_comps_append:
  "norm_comps ini (xs @ ys) acc = norm_comps ini ys (norm_comps ini xs acc)"
proof (induction xs arbitrary: acc)
  case Nil
  then show ?case by simp
next
  case (Cons x xs)
  have "norm_comps ini ((x # xs) @ ys) acc = norm_comps ini (xs @ ys) (norm_step ini x acc)"
    by (simp only: append_Cons norm_comps_step)
  also have "\<dots> = norm_comps ini ys (norm_comps ini xs (norm_step ini x acc))"
    by (rule Cons.IH)
  also have "norm_comps ini xs (norm_step ini x acc) = norm_comps ini (x # xs) acc"
    by (simp only: norm_comps_step)
  finally show ?case .
qed

lemma normpath_join_name:
  assumes "isabs d" "plain n" "\<forall>c\<in>set n. \<not> is_sep c"
  shows "\<exists>q. normpath (join d n) = q @ ''/'' @ n"
proof -
  have dn: "d \<noteq> []"
    using assms(1) by (rule isabs_nonempty)
  have nn: "\<not> isabs n"
    using assms(2,3) by (cases n) (auto simp: isabs_def plain_def)
  obtain X where X: "join d n = X @ CHR ''/'' # n"
  proof (cases "is_sep (last d)")
    case True
    then have b: "butlast d @ [CHR ''/''] = d"
      using dn append_butlast_last_id [of d] by (simp add: is_sep_def)
    have "join d n = d @ n"
      using nn True dn by (simp add: join_def)
    also have "\<dots> = (butlast d @ [CHR ''/'']) @ n"
      unfolding b ..
    finally have "join d n = butlast d @ CHR ''/'' # n"
      by simp
    then show ?thesis
      by (rule that)
  next
    case False
    then have "join d n = d @ CHR ''/'' # n"
      using nn dn by (simp add: join_def)
    then show ?thesis
      by (rule that)
  qed
  let ?P = "join d n"
  have aP: "isabs ?P"
    using assms(1) by (rule isabs_join)
  have P: "?P \<noteq> []"
    using aP by (rule isabs_nonempty)
  define i :: nat where "i = (if prefix ''//'' ?P \<and> \<not> prefix ''///'' ?P then 2 else 1)"
  define A where "A = norm_comps True (py_split X) []"
  have "py_split ?P = py_split X @ py_split n"
    unfolding X by (rule py_split_append_sep) (simp add: is_sep_def)
  then have sp: "py_split ?P = py_split X @ [n]"
    using assms(3) by (simp add: py_split_nosep)
  have "norm_comps True (py_split ?P) [] = norm_comps True [n] A"
    unfolding sp A_def by (rule norm_comps_append)
  also have "\<dots> = A @ [n]"
    by (rule norm_comps_plain) (simp add: assms(2))
  finally have nc: "norm_comps True (py_split ?P) [] = A @ [n]" .
  have i: "replicate i CHR ''/'' = ''/'' \<or> replicate i CHR ''/'' = ''//''"
    by (simp add: i_def numeral_2_eq_2)
  have "normpath ?P = replicate i CHR ''/'' @ sep_join (norm_comps True (py_split ?P) [])"
    using aP P unfolding normpath_def Let_def i_def by simp
  then have r: "normpath ?P = replicate i CHR ''/'' @ sep_join (A @ [n])"
    unfolding nc .
  show ?thesis
  proof (cases "A = []")
    case True
    then have "normpath ?P = replicate i CHR ''/'' @ n"
      using r by simp
    then have "normpath ?P = [] @ ''/'' @ n \<or> normpath ?P = ''/'' @ ''/'' @ n"
      using i by auto
    then show ?thesis
      by blast
  next
    case False
    then have "normpath ?P = (replicate i CHR ''/'' @ sep_join A) @ ''/'' @ n"
      using r by (simp add: sep_join_snoc)
    then show ?thesis
      by blast
  qed
qed

lemma raw_tail_name:
  assumes "\<forall>c\<in>set n. \<not> is_sep c"
  shows "raw_tail (q @ ''/'' @ n) = n"
proof -
  have "takeWhile (\<lambda>c. \<not> is_sep c) (rev n @ CHR ''/'' # rev q)
          = rev n @ takeWhile (\<lambda>c. \<not> is_sep c) (CHR ''/'' # rev q)"
    by (rule takeWhile_append2) (simp add: assms)
  then show ?thesis
    by (simp add: raw_tail_def is_sep_def)
qed

lemma tagged_name:
  assumes "type_tag e = Some tag"
  shows "plain (tag @ path_stem p @ ''.pdf'')"
    and "\<forall>c\<in>set (tag @ path_stem p @ ''.pdf''). \<not> is_sep c"
  using type_tag_cases [OF assms] tagged_plain [of "path_stem p @ ''.pdf''"]
    tagged_nosep [OF stem_ext_nosep(1) [of p]]
  by auto

lemma os_path_tmp_output:
  assumes "isabs d" "type_tag e = Some tag"
  shows "\<exists>q. os_path env (tmp_output tag (path_stem p) d) = q @ ''/'' @ tag @ path_stem p @ ''.pdf''"
proof -
  have "isabs (join d (tag @ path_stem p @ ''.pdf''))"
    using assms(1) by (rule isabs_join)
  then have "os_path env (tmp_output tag (path_stem p) d)
               = normpath (join d (tag @ path_stem p @ ''.pdf''))"
    by (simp add: os_path_def abspath_def tmp_output_def)
  then show ?thesis
    using normpath_join_name [OF assms(1) tagged_name [OF assms(2), of p]] by simp
qed

lemma convert_to_pdf_overwrites:
  assumes "isabs (cwd env)" "isabs (case t of None \<Rightarrow> tmp_root env | Some x \<Rightarrow> x)"
    and "convert_to_pdf env i t fs = (Inr out, g)"
    and "fs (os_path env out) = Some (File c0)"
  shows "convert_to_pdf env i t (fs(os_path env out \<mapsto> File c)) = (Inr out, g)"
proof -
  let ?d = "case t of None \<Rightarrow> tmp_root env | Some x \<Rightarrow> x"
  obtain tag where tag: "input_tag env i = Some tag"
    and out: "out = tmp_output tag (input_stem env i) ?d"
    using convert_to_pdf_out [OF assms(3)] by blast
  obtain q where "os_path env out = q @ ''/'' @ tag @ input_stem env i @ ''.pdf''"
    using os_path_tmp_output [OF assms(2) tag [unfolded input_tag_def]]
    unfolding out input_stem_def by blast
  then have q: "os_path env out = (q @ ''/'' @ tag @ input_stem env i) @ ''.pdf''"
    by simp
  have "canonical (abspath (cwd env) i)"
    using assms(1) by (rule canonical_abspath)
  then have e: "os_path env (abspath (cwd env) i) = abspath (cwd env) i"
    by (rule os_path_abs)
  have ne: "os_path env (abspath (cwd env) i) \<noteq> os_path env out"
    unfolding e q by (rule suffix_pdf_unsupported [OF tag [unfolded input_tag_def]])
  have "related (os_path env out) fs (fs(os_path env out \<mapsto> File c))"
    using assms(4) by (rule related_update)
  with assms(3) show ?thesis
    using ne by (rule convert_to_pdf_related)
qed

text \<open>
  C10. When \<open>convert_to_pdf\<close> returns, the path it returns is made of the prefix of the
  type class of the input (\<open>img_\<close>, \<open>txt_\<close> or \<open>docx_\<close>), the stem of the input and the
  temporary directory, and of nothing else. So when two inputs of one type class with the
  same stem are converted one after the other into the same directory, both calls return
  the same path; after the first call a PDF file is at the place this path leads to, after
  the second call a PDF file is there, and the second call would have returned the same and
  left the same file system whatever file the first had left at that place: nothing of the
  first result remains. Inputs of different type classes never get the same path, and
  their paths never lead to the same place. The directory is absolute, as the temporary
  directory of \<open>merge_pdfs\<close> and the default one are; when it is written as a location
  without a slash at its end, as \<open>mkdtemp\<close> writes it, the place is the returned path
  itself.
\<close>

theorem converted_path_collisions:
  assumes "isabs (cwd env)" and "d = (case t of None \<Rightarrow> tmp_root env | Some x \<Rightarrow> x)"
    and "isabs d"
    and "convert_to_pdf env in1 t fs = (Inr out1, fs1)"
    and "convert_to_pdf env in2 t fs1 = (Inr out2, fs2)"
  shows "(\<exists>tag. input_tag env in1 = Some tag \<and> out1 = tmp_output tag (input_stem env in1) d)
       \<and> (\<exists>tag. input_tag env in2 = Some tag \<and> out2 = tmp_output tag (input_stem env in2) d)
       \<and> (input_tag env in1 = input_tag env in2 \<and> input_stem env in1 = input_stem env in2
          \<longrightarrow> out2 = out1
              \<and> (\<exists>ps. fs1 (os_path env out1) = Some (File (PDF ps)))
              \<and> (\<exists>ps. fs2 (os_path env out1) = Some (File (PDF ps)))
              \<and> (\<forall>c. convert_to_pdf env in2 t (fs1(os_path env out1 \<mapsto> File c))
                        = (Inr out2, fs2)))
       \<and> (input_tag env in1 \<noteq> input_tag env in2
          \<longrightarrow> out2 \<noteq> out1 \<and> os_path env out2 \<noteq> os_path env out1)
       \<and> (canonical d \<and> \<not> is_sep (last d) \<longrightarrow> os_path env out1 = out1)"
proof -
  obtain tag1 where t1: "input_tag env in1 = Some tag1"
    and o1: "out1 = tmp_output tag1 (input_stem env in1) d"
    using convert_to_pdf_out [OF assms(4)] assms(2) by auto
  obtain tag2 where t2: "input_tag env in2 = Some tag2"
    and o2: "out2 = tmp_output tag2 (input_stem env in2) d"
    using convert_to_pdf_out [OF assms(5)] assms(2) by auto
  note n1 = tagged_name [OF t1 [unfolded input_tag_def], of "abspath (cwd env) in1"]
  note n2 = tagged_name [OF t2 [unfolded input_tag_def], of "abspath (cwd env) in2"]
  have w1: "\<exists>ps. fs1 (os_path env out1) = Some (File (PDF ps))"
    using assms(4) by (rule convert_to_pdf_written)
  have w2: "\<exists>ps. fs2 (os_path env out2) = Some (File (PDF ps))"
    using assms(5) by (rule convert_to_pdf_written)
  have same: "out2 = out1
              \<and> (\<exists>ps. fs1 (os_path env out1) = Some (File (PDF ps)))
              \<and> (\<exists>ps. fs2 (os_path env out1) = Some (File (PDF ps)))
              \<and> (\<forall>c. convert_to_pdf env in2 t (fs1(os_path env out1 \<mapsto> File c))
                        = (Inr out2, fs2))"
    if h: "input_tag env in1 = input_tag env in2 \<and> input_stem env in1 = input_stem env in2"
  proof -
    have e: "out2 = out1"
      using h t1 t2 by (simp add: o1 o2)
    obtain ps where ps: "fs1 (os_path env out2) = Some (File (PDF ps))"
      using w1 e by auto
    have "convert_to_pdf env in2 t (fs1(os_path env out2 \<mapsto> File c)) = (Inr out2, fs2)" for c
      using assms(1) assms(3) [unfolded assms(2)] assms(5) ps
      by (rule convert_to_pdf_overwrites)
    then show ?thesis
      using e w1 w2 by simp
  qed
  have diff: "out2 \<noteq> out1 \<and> os_path env out2 \<noteq> os_path env out1"
    if h: "input_tag env in1 \<noteq> input_tag env in2"
  proof -
    have ne: "tag2 \<noteq> tag1"
      using h t1 t2 by auto
    have 1: "out2 \<noteq> out1"
      unfolding o1 o2
      using tmp_output_distinct [OF t2 [unfolded input_tag_def] t1 [unfolded input_tag_def] ne]
      by blast
    obtain q1 where q1: "os_path env out1 = q1 @ ''/'' @ tag1 @ input_stem env in1 @ ''.pdf''"
      using os_path_tmp_output [OF assms(3) t1 [unfolded input_tag_def]]
      unfolding o1 input_stem_def by blast
    obtain q2 where q2: "os_path env out2 = q2 @ ''/'' @ tag2 @ input_stem env in2 @ ''.pdf''"
      using os_path_tmp_output [OF assms(3) t2 [unfolded input_tag_def]]
      unfolding o2 input_stem_def by blast
    have r1: "raw_tail (os_path env out1) = tag1 @ input_stem env in1 @ ''.pdf''"
      unfolding q1 input_stem_def using n1(2) by (rule raw_tail_name)
    have r2: "raw_tail (os_path env out2) = tag2 @ input_stem env in2 @ ''.pdf''"
      unfolding q2 input_stem_def using n2(2) by (rule raw_tail_name)
    have "tag2 @ input_stem env in2 @ ''.pdf'' \<noteq> tag1 @ input_stem env in1 @ ''.pdf''"
      using t2 [unfolded input_tag_def] t1 [unfolded input_tag_def] ne by (rule tagged_distinct)
    then have "os_path env out2 \<noteq> os_path env out1"
      using r1 r2 by metis
    then show ?thesis
      using 1 by simp
  qed
  have loc: "os_path env out1 = out1" if h: "canonical d \<and> \<not> is_sep (last d)"
  proof -
    have "canonical (join d (tag1 @ path_stem (abspath (cwd env) in1) @ ''.pdf''))"
      using h n1 by (intro canonical_join(2)) simp_all
    then have "canonical out1"
      unfolding o1 tmp_output_def input_stem_def .
    then show ?thesis
      by (rule os_path_abs)
  qed
  show ?thesis
    using t1 o1 t2 o2 same diff loc by blast
qed

theorem converted_path_collisions_witness:
  "fst (convert_to_pdf env0 ''x.png'' (Some ''/tmp'') fs0) = Inr ''/tmp/img_x.pdf''
   \<and> snd (convert_to_pdf env0 ''x.png'' (Some ''/tmp'') fs0) ''/tmp/img_x.pdf''
       = Some (File (PDF [11]))
   \<and> fst (convert_to_pdf env0 ''/home/x.jpg'' (Some ''/tmp'')
            (snd (convert_to_pdf env0 ''x.png'' (Some ''/tmp'') fs0))) = Inr ''/tmp/img_x.pdf''
   \<and> snd (convert_to_pdf env0 ''/home/x.jpg'' (Some ''/tmp'')
            (snd (convert_to_pdf env0 ''x.png'' (Some ''/tmp'') fs0))) ''/tmp/img_x.pdf''
       = Some (File (PDF [12]))
   \<and> convert_to_pdf env0 ''/home/x.jpg'' (Some ''/tmp'')
        ((snd (convert_to_pdf env0 ''x.png'' (Some ''/tmp'') fs0))
           (''/tmp/img_x.pdf'' \<mapsto> File (Blob [])))
       = convert_to_pdf env0 ''/home/x.jpg'' (Some ''/tmp'')
           (snd (convert_to_pdf env0 ''x.png'' (Some ''/tmp'') fs0))"
proof -
  let ?c1 = "convert_to_pdf env0 ''x.png'' (Some ''/tmp'') fs0"
  let ?c2 = "convert_to_pdf env0 ''/home/x.jpg'' (Some ''/tmp'') (snd ?c1)"
  have f1: "fst ?c1 = Inr ''/tmp/img_x.pdf''"
    by code_simp
  then have c1: "?c1 = (Inr ''/tmp/img_x.pdf'', snd ?c1)"
    by (rule fst_eq_pair)
  have f2: "fst ?c2 = Inr ''/tmp/img_x.pdf''"
    by code_simp
  then have c2: "?c2 = (Inr ''/tmp/img_x.pdf'', snd ?c2)"
    by (rule fst_eq_pair)
  have s1: "snd ?c1 ''/tmp/img_x.pdf'' = Some (File (PDF [11]))"
    by code_simp
  have s2: "snd ?c2 ''/tmp/img_x.pdf'' = Some (File (PDF [12]))"
    by code_simp
  have d: "''/tmp'' = (case Some ''/tmp'' of None \<Rightarrow> tmp_root env0 | Some x \<Rightarrow> x)"
    by simp
  have a: "isabs ''/tmp''"
    by code_simp
  have h: "input_tag env0 ''x.png'' = input_tag env0 ''/home/x.jpg''
           \<and> input_stem env0 ''x.png'' = input_stem env0 ''/home/x.jpg''"
    by code_simp
  have op: "os_path env0 ''/tmp/img_x.pdf'' = ''/tmp/img_x.pdf''"
    by code_simp
  note th = converted_path_collisions [OF isabs_cwd0 d a c1 c2, THEN conjunct2, THEN conjunct2,
      THEN conjunct1, rule_format, OF h, unfolded op]
  have "convert_to_pdf env0 ''/home/x.jpg'' (Some ''/tmp'')
          ((snd ?c1)(''/tmp/img_x.pdf'' \<mapsto> File (Blob []))) = (Inr ''/tmp/img_x.pdf'', snd ?c2)"
    using th by blast
  then have "convert_to_pdf env0 ''/home/x.jpg'' (Some ''/tmp'')
          ((snd ?c1)(''/tmp/img_x.pdf'' \<mapsto> File (Blob []))) = ?c2"
    using c2 by simp
  then show ?thesis
    using f1 f2 s1 s2 by simp
qed

end
